(* ===== verification/Prelude.thy ===== *)
theory Prelude
  imports Complex_Main "HOL-Library.Word" "HOL-Library.Multiset"
begin

text \<open>
  Shared vocabulary of the Mines development: the JavaScript number values the server's
  handlers compute with (\<open>jsnum\<close>), the JavaScript built-ins the code calls
  (\<open>Array.prototype.slice\<close>, \<open>Number.isInteger\<close>, \<open>parseInt(_, 16)\<close>,
  \<open>Number.prototype.toFixed\<close>, template-string printing of an integer), the in-place
  swap of the shuffle, and the generic list lemmas the component theories share.
  JavaScript doubles are modelled by exact rationals: the rounding error of IEEE
  arithmetic is not modelled (the header of Spec2Isabelle says where this matters).
\<close>

named_theorems js_simps "evaluation rules of the JavaScript built-ins"

type_synonym u32 = "32 word"

section \<open>JavaScript numbers\<close>

text \<open>
  A JavaScript number as the server code meets it: a finite value (exact rational) or
  \<open>NaN\<close>, which \<open>Number(x)\<close> yields for a non-numeric request field. The infinities
  are not represented: every input that converts to \<open>\<plusminus>Infinity\<close> takes the same
  branch of the code's checks as a large finite value, and the code's own divisions are
  guarded so that they never produce one.
\<close>

datatype jsnum = Num rat | NaN

text \<open>Relational operators: every comparison with \<open>NaN\<close> is false.\<close>

fun js_lt :: "jsnum \<Rightarrow> jsnum \<Rightarrow> bool" where
  "js_lt (Num a) (Num b) = (a < b)"
| "js_lt _ _ = False"

fun js_le :: "jsnum \<Rightarrow> jsnum \<Rightarrow> bool" where
  "js_le (Num a) (Num b) = (a \<le> b)"
| "js_le _ _ = False"

text \<open>Arithmetic: \<open>NaN\<close> is absorbing.\<close>

fun js_sub :: "jsnum \<Rightarrow> jsnum \<Rightarrow> jsnum" where
  "js_sub (Num a) (Num b) = Num (a - b)"
| "js_sub _ _ = NaN"

fun js_mul :: "jsnum \<Rightarrow> jsnum \<Rightarrow> jsnum" where
  "js_mul (Num a) (Num b) = Num (a * b)"
| "js_mul _ _ = NaN"

text \<open>
  Division. A zero divisor would give an infinity (or \<open>NaN\<close> for \<open>0/0\<close>); the code
  divides only by a positive remaining cell count and by a positive survival
  probability, so that case is mapped to \<open>NaN\<close> and never reached.
\<close>

fun js_div :: "jsnum \<Rightarrow> jsnum \<Rightarrow> jsnum" where
  "js_div (Num a) (Num b) = (if b = 0 then NaN else Num (a / b))"
| "js_div _ _ = NaN"

text \<open>\<open>Number.isInteger\<close>.\<close>

fun js_is_integer :: "jsnum \<Rightarrow> bool" where
  "js_is_integer (Num q) = (of_int \<lfloor>q\<rfloor> = q)"
| "js_is_integer NaN = False"

text \<open>\<open>ToIntegerOrInfinity\<close>, the conversion \<open>slice\<close> applies to its bounds: truncation
  towards zero, and \<open>NaN\<close> becomes 0.\<close>

fun js_to_integer :: "jsnum \<Rightarrow> int" where
  "js_to_integer (Num q) = (if q < 0 then \<lceil>q\<rceil> else \<lfloor>q\<rfloor>)"
| "js_to_integer NaN = 0"

text \<open>The end position that \<open>xs.slice(0, e)\<close> uses on a list of length \<open>len\<close>:
  a negative end counts from the back, and the end is clamped to \<open>[0, len]\<close>.\<close>

definition js_slice_end :: "nat \<Rightarrow> jsnum \<Rightarrow> nat" where
  "js_slice_end len e =
     (let k = js_to_integer e in
      if k < 0 then nat (max 0 (int len + k)) else min (nat k) len)"

definition js_slice0 :: "'a list \<Rightarrow> jsnum \<Rightarrow> 'a list" where
  "js_slice0 xs e = take (js_slice_end (length xs) e) xs"

text \<open>
  \<open>parseFloat(x.toFixed(6))\<close>: \<open>toFixed\<close> picks the multiple of \<open>10\<^sup>-\<^sup>6\<close>
  nearest to \<open>|x|\<close>, the larger one on a tie, and puts the sign back; from
  \<open>10\<^sup>2\<^sup>1\<close> on it prints the number unchanged. \<open>parseFloat\<close> reads the printed decimal back.
\<close>

definition round6 :: "rat \<Rightarrow> rat" where
  "round6 q = of_int \<lfloor>q * 1000000 + 1 / 2\<rfloor> / 1000000"

fun js_to_fixed6 :: "jsnum \<Rightarrow> jsnum" where
  "js_to_fixed6 (Num q) =
     (if \<bar>q\<bar> \<ge> 10 ^ 21 then Num q
      else if q < 0 then Num (- round6 (- q)) else Num (round6 q))"
| "js_to_fixed6 NaN = NaN"

declare js_lt.simps [js_simps] js_le.simps [js_simps] js_sub.simps [js_simps]
  js_mul.simps [js_simps] js_div.simps [js_simps] js_is_integer.simps [js_simps]
  js_to_integer.simps [js_simps] js_to_fixed6.simps [js_simps]

section \<open>Strings\<close>

text \<open>Template-string printing of a non-negative integer: \<open>`${n}`\<close>.\<close>

fun nat_to_string :: "nat \<Rightarrow> string" where
  "nat_to_string n =
     (if n < 10 then [char_of (48 + n)]
      else nat_to_string (n div 10) @ [char_of (48 + n mod 10)])"

text \<open>The value of a hexadecimal digit character, \<open>None\<close> for any other character.\<close>

definition hex_digit :: "char \<Rightarrow> nat option" where
  "hex_digit c =
     (let n = (of_char c :: nat) in
      if 48 \<le> n \<and> n \<le> 57 then Some (n - 48)
      else if 97 \<le> n \<and> n \<le> 102 then Some (n - 87)
      else if 65 \<le> n \<and> n \<le> 70 then Some (n - 55)
      else None)"

text \<open>The longest prefix of hexadecimal digits, as digit values.\<close>

fun hex_prefix :: "string \<Rightarrow> nat list" where
  "hex_prefix [] = []"
| "hex_prefix (c # cs) =
     (case hex_digit c of None \<Rightarrow> [] | Some d \<Rightarrow> d # hex_prefix cs)"

definition digits_value :: "nat list \<Rightarrow> nat" where
  "digits_value ds = foldl (\<lambda>acc d. 16 * acc + d) 0 ds"

text \<open>
  \<open>parseInt(s, 16)\<close>: the value of the longest hexadecimal prefix, \<open>None\<close> (\<open>NaN\<close>)
  when there is none. The leading-whitespace, sign and \<open>0x\<close> handling of
  \<open>parseInt\<close> is left out: the code applies it to slices of a lowercase hexadecimal
  digest, which contain none of those characters.
\<close>

definition parse_int16 :: "string \<Rightarrow> nat option" where
  "parse_int16 s = (case hex_prefix s of [] \<Rightarrow> None | ds \<Rightarrow> Some (digits_value ds))"

text \<open>\<open>s.padEnd(8, '0')\<close>.\<close>

definition pad_end8 :: "string \<Rightarrow> string" where
  "pad_end8 s = s @ replicate (8 - length s) CHR ''0''"

section \<open>Lists\<close>

text \<open>The destructuring swap \<open>[a[i], a[j]] = [a[j], a[i]]\<close>: both values are read
  first, then \<open>a[i]\<close> and \<open>a[j]\<close> are written in this order.\<close>

definition swap :: "'a list \<Rightarrow> nat \<Rightarrow> nat \<Rightarrow> 'a list" where
  "swap xs i j = xs[i := xs ! j, j := xs ! i]"

section \<open>Shared lemmas\<close>

subsection \<open>Swap\<close>

lemma length_swap [simp]: "length (swap xs i j) = length xs"
  by (simp add: swap_def)

lemma mset_swap [simp]:
  "i < length xs \<Longrightarrow> j < length xs \<Longrightarrow> mset (swap xs i j) = mset xs"
  by (simp add: swap_def mset_swap)

lemma set_swap_eq [simp]:
  "i < length xs \<Longrightarrow> j < length xs \<Longrightarrow> set (swap xs i j) = set xs"
  by (simp add: swap_def)

lemma distinct_swap_eq [simp]:
  "i < length xs \<Longrightarrow> j < length xs \<Longrightarrow> distinct (swap xs i j) = distinct xs"
  by (simp add: swap_def)

subsection \<open>Hexadecimal parsing\<close>

lemma hex_digit_lt: "hex_digit c = Some d \<Longrightarrow> d < 16"
  by (auto simp: hex_digit_def Let_def split: if_splits)

lemma hex_prefix_lt: "d \<in> set (hex_prefix s) \<Longrightarrow> d < 16"
  by (induction s) (fastforce split: option.splits dest: hex_digit_lt [OF sym])+

lemma length_hex_prefix: "length (hex_prefix s) \<le> length s"
  by (induction s) (auto split: option.splits)

lemma digits_value_foldl_bound:
  "(\<forall>d \<in> set ds. d < 16) \<Longrightarrow> (acc::nat) < 16 ^ k \<Longrightarrow>
   foldl (\<lambda>acc d. 16 * acc + d) acc ds < 16 ^ (k + length ds)"
proof (induction ds arbitrary: acc k)
  case Nil
  then show ?case by simp
next
  case (Cons d ds)
  have "16 * acc + d < 16 * (acc + 1)"
    using Cons.prems by simp
  also have "\<dots> \<le> 16 * 16 ^ k"
    using Cons.prems by simp
  finally have "16 * acc + d < 16 ^ Suc k"
    by simp
  then show ?case
    using Cons.IH [of "16 * acc + d" "Suc k"] Cons.prems by simp
qed

lemma digits_value_bound:
  "(\<forall>d \<in> set ds. d < 16) \<Longrightarrow> digits_value ds < 16 ^ length ds"
  using digits_value_foldl_bound [of ds 0 0] by (simp add: digits_value_def)

lemma parse_int16_bound: "parse_int16 s = Some v \<Longrightarrow> v < 16 ^ length s"
proof -
  assume p: "parse_int16 s = Some v"
  then have v: "v = digits_value (hex_prefix s)"
    by (simp add: parse_int16_def split: list.splits)
  have "digits_value (hex_prefix s) < 16 ^ length (hex_prefix s)"
    by (rule digits_value_bound) (auto dest: hex_prefix_lt)
  also have "(16::nat) ^ length (hex_prefix s) \<le> 16 ^ length s"
    by (rule power_increasing) (simp_all add: length_hex_prefix)
  finally show ?thesis by (simp add: v)
qed

subsection \<open>Slices and rounding\<close>

lemma js_slice_end_le: "js_slice_end len e \<le> len"
  by (auto simp: js_slice_end_def Let_def)

lemma js_slice_end_nat [simp]: "js_slice_end len (Num (of_nat k)) = min k len"
  by (simp add: js_slice_end_def)

lemma js_slice_end_NaN [simp]: "js_slice_end len NaN = 0"
  by (simp add: js_slice_end_def)

lemma round6_mono: "a \<le> b \<Longrightarrow> round6 a \<le> round6 b"
  unfolding round6_def by (simp add: divide_right_mono floor_mono)

lemma round6_nonneg: "0 \<le> a \<Longrightarrow> 0 \<le> round6 a"
  unfolding round6_def by simp

lemma round6_of_int [simp]: "round6 (of_int n) = of_int n"
proof -
  have "\<lfloor>of_int n * 1000000 + 1 / 2 :: rat\<rfloor> = n * 1000000"
    by (subst floor_unique) simp_all
  then show ?thesis by (simp add: round6_def)
qed

lemma round6_le_of_int: "a \<le> of_int n \<Longrightarrow> round6 a \<le> of_int n"
  using round6_mono [of a "of_int n"] by simp

text \<open>\<open>toFixed(6)\<close> read back is monotone on non-negative values, across the switch to
  exponent notation at \<open>10\<^sup>2\<^sup>1\<close> as well.\<close>

lemma js_to_fixed6_mono:
  assumes "0 \<le> a" and "a \<le> b"
  shows "js_le (js_to_fixed6 (Num a)) (js_to_fixed6 (Num b))"
proof (cases "10 ^ 21 \<le> b")
  case True
  have "round6 a \<le> b" if "a < 10 ^ 21"
  proof -
    have "round6 a \<le> of_int (10 ^ 21)"
      using that by (intro round6_le_of_int) simp
    then show ?thesis using True by simp
  qed
  then show ?thesis
    using assms True by (auto simp: not_le)
next
  case False
  then show ?thesis
    using assms by (simp add: round6_mono)
qed

lemma js_to_fixed6_nonneg:
  "0 \<le> a \<Longrightarrow> \<exists>q. js_to_fixed6 (Num a) = Num q \<and> 0 \<le> q"
  by (simp add: round6_nonneg)

end
