(* ===== verification/Prng.thy ===== *)
theory Prng
  imports Prelude
begin

text \<open>
  The seeded generator of \<open>src/server.js\<close>, \<open>xorshiftSeedFromHex\<close> (lines 40--52).
  The HMAC digest (a hexadecimal string) is folded into a 32-bit seed by XOR-ing the
  values of its 8-character chunks that start below \<open>min(32, hex.length)\<close>; a zero
  seed is replaced by \<open>0x9e3779b9\<close>. The closure it returns keeps the state \<open>s\<close>; each
  call advances it by \<open>Math.imul(s ^ (s >>> 15), 1 | s) + 0x6D2B79F5\<close> and returns
  \<open>((s >>> 0) % 1000000) / 1000000\<close>.

  Every use of \<open>s\<close> in the code goes through \<open>ToInt32\<close> or \<open>ToUint32\<close>, so the state
  is a 32-bit word (\<open>u32\<close>); the model of a call returns the numerator \<open>k\<close> of the
  result \<open>k / 1000000\<close> together with the new state. The second group of definitions
  transcribes the same step in JavaScript's number semantics (\<open>int\<close> with \<open>ToInt32\<close>,
  \<open>ToUint32\<close> and \<open>Math.imul\<close> written out), together with the seed loop on signed
  JavaScript integers; \<open>rnd_js_equiv\<close> and \<open>initial_state_js_equiv\<close> show that the
  word model computes exactly that.
\<close>

unbundle bit_operations_syntax

section \<open>Definitions\<close>

subsection \<open>Seed folding\<close>

text \<open>\<open>parseInt(hex.slice(i, i + 8).padEnd(8, '0'), 16) || 0\<close>\<close>

definition hex_chunk :: "string \<Rightarrow> nat \<Rightarrow> nat" where
  "hex_chunk hex i =
     (case parse_int16 (pad_end8 (take 8 (drop i hex))) of None \<Rightarrow> 0 | Some v \<Rightarrow> v)"

text \<open>The loop \<open>for (let i = 0; i < Math.min(32, hex.length); i += 8) s ^= part\<close>.\<close>

function seed_fold :: "string \<Rightarrow> nat \<Rightarrow> u32 \<Rightarrow> u32" where
  "seed_fold hex i s =
     (if i < min 32 (length hex)
      then seed_fold hex (i + 8) (s XOR word_of_nat (hex_chunk hex i))
      else s)"
  by pat_completeness auto
termination
  by (relation "measure (\<lambda>(hex, i, s). 32 - i)") auto

declare seed_fold.simps [simp del]

definition initial_state :: "string \<Rightarrow> u32" where
  "initial_state hex = (let s = seed_fold hex 0 0 in if s = 0 then 0x9e3779b9 else s)"

subsection \<open>The generator\<close>

definition prng_next :: "u32 \<Rightarrow> u32" where
  "prng_next s = (s XOR drop_bit 15 s) * (1 OR s) + 0x6D2B79F5"

text \<open>One call of the closure: the numerator of the returned fraction and the new state.\<close>

definition rnd :: "u32 \<Rightarrow> nat \<times> u32" where
  "rnd s = (let s' = prng_next s in (unat s' mod 1000000, s'))"

subsection \<open>The same step in JavaScript number semantics\<close>

definition to_uint32 :: "int \<Rightarrow> int" where
  "to_uint32 x = x mod 2 ^ 32"

definition to_int32 :: "int \<Rightarrow> int" where
  "to_int32 x = (let m = x mod 2 ^ 32 in if m \<ge> 2 ^ 31 then m - 2 ^ 32 else m)"

text \<open>\<open>a ^ b\<close>, \<open>a | b\<close>, \<open>a >>> n\<close> and \<open>Math.imul(a, b)\<close> on JavaScript integers.\<close>

definition js_xor :: "int \<Rightarrow> int \<Rightarrow> int" where
  "js_xor a b = to_int32 a XOR to_int32 b"

definition js_or :: "int \<Rightarrow> int \<Rightarrow> int" where
  "js_or a b = to_int32 a OR to_int32 b"

definition js_ushr :: "int \<Rightarrow> nat \<Rightarrow> int" where
  "js_ushr a n = to_uint32 a div 2 ^ n"

definition js_imul :: "int \<Rightarrow> int \<Rightarrow> int" where
  "js_imul a b = to_int32 (to_uint32 a * to_uint32 b)"

text \<open>\<open>s = Math.imul(s ^ (s >>> 15), 1 | s); s += 0x6D2B79F5;\<close> the sum is not
  wrapped: \<open>s\<close> may leave the 32-bit range until the next use converts it.\<close>

definition js_step :: "int \<Rightarrow> int" where
  "js_step s = js_imul (js_xor s (js_ushr s 15)) (js_or 1 s) + 0x6D2B79F5"

definition js_rnd_numerator :: "int \<Rightarrow> int" where
  "js_rnd_numerator s = js_ushr s 0 mod 1000000"

text \<open>The seed loop and the zero test of lines 40--45 on JavaScript numbers: \<open>s ^= part\<close>
  converts both operands with \<open>ToInt32\<close>, so \<open>s\<close> is a signed 32-bit value after the
  first iteration.\<close>

function js_seed_fold :: "string \<Rightarrow> nat \<Rightarrow> int \<Rightarrow> int" where
  "js_seed_fold hex i s =
     (if i < min 32 (length hex)
      then js_seed_fold hex (i + 8) (js_xor s (int (hex_chunk hex i)))
      else s)"
  by pat_completeness auto
termination
  by (relation "measure (\<lambda>(hex, i, s). 32 - i)") auto

declare js_seed_fold.simps [simp del]

definition js_initial_state :: "string \<Rightarrow> int" where
  "js_initial_state hex = (let s = js_seed_fold hex 0 0 in if s = 0 then 0x9e3779b9 else s)"

section \<open>Lemmas\<close>

lemma hex_chunk_lt: "hex_chunk hex i < 2 ^ 32"
proof (cases "parse_int16 (pad_end8 (take 8 (drop i hex)))")
  case None
  then show ?thesis by (simp add: hex_chunk_def)
next
  case (Some v)
  have len: "length (pad_end8 (take 8 (drop i hex))) = 8"
    by (simp add: pad_end8_def)
  from Some have "v < 16 ^ 8"
    using parse_int16_bound [OF Some] by (simp add: len)
  with Some show ?thesis by (simp add: hex_chunk_def)
qed

text \<open>The fold reads only the characters below position 32.\<close>

lemma hex_chunk_take32:
  "i < 32 \<Longrightarrow> i mod 8 = 0 \<Longrightarrow> hex_chunk (take 32 hex) i = hex_chunk hex i"
proof -
  assume "i < 32" "i mod 8 = 0"
  then have "i + 8 \<le> 32" by presburger
  then have "take 8 (drop i (take 32 hex)) = take 8 (drop i hex)"
    by (simp add: drop_take min_def)
  then show ?thesis by (simp add: hex_chunk_def)
qed

lemma seed_fold_take32:
  "i mod 8 = 0 \<Longrightarrow> seed_fold (take 32 hex) i s = seed_fold hex i s"
proof (induction hex i s rule: seed_fold.induct)
  case (1 hex i s)
  let ?t = "take 32 hex"
  show ?case
  proof (cases "i < min 32 (length hex)")
    case True
    have chunk: "hex_chunk ?t i = hex_chunk hex i"
      using True "1.prems" by (simp add: hex_chunk_take32)
    have step: "(i + 8) mod 8 = 0"
      using "1.prems" by simp
    have "seed_fold ?t i s = seed_fold ?t (i + 8) (s XOR word_of_nat (hex_chunk ?t i))"
      using True by (simp add: seed_fold.simps [of ?t i s])
    also have "\<dots> = seed_fold hex (i + 8) (s XOR word_of_nat (hex_chunk hex i))"
      using "1.IH" [OF True step] by (simp add: chunk)
    also have "\<dots> = seed_fold hex i s"
      using True by (simp add: seed_fold.simps [of hex i s])
    finally show ?thesis .
  next
    case False
    then show ?thesis
      by (auto simp: seed_fold.simps [of "take 32 hex" i s] seed_fold.simps [of hex i s])
  qed
qed

lemma word_of_int_to_int32 [simp]: "(word_of_int (to_int32 x) :: u32) = word_of_int x"
  by (simp add: word_of_int_eq_iff take_bit_eq_mod to_int32_def Let_def)

lemma word_of_int_to_uint32 [simp]: "(word_of_int (to_uint32 x) :: u32) = word_of_int x"
  by (simp add: word_of_int_eq_iff take_bit_eq_mod to_uint32_def)

lemma word_of_int_js_ushr:
  "(word_of_int (js_ushr x n) :: u32) = drop_bit n (word_of_int x)"
proof -
  have "js_ushr x n = drop_bit n (take_bit 32 x)"
    by (simp add: js_ushr_def to_uint32_def drop_bit_eq_div take_bit_eq_mod)
  then show ?thesis
    by (simp add: word_of_int_eq_iff) (transfer, simp add: take_bit_drop_bit)
qed

lemma uint_word_of_int_u32: "uint (word_of_int x :: u32) = to_uint32 x"
  by (simp add: uint_word_of_int_eq take_bit_eq_mod to_uint32_def)

lemma prng_next_js: "(word_of_int (js_step x) :: u32) = prng_next (word_of_int x)"
  by (simp add: js_step_def js_imul_def js_xor_def js_or_def prng_next_def
      of_int_xor_eq of_int_or_eq word_of_int_js_ushr)

lemma rnd_fst_lt: "fst (rnd s) < 1000000"
  by (simp add: rnd_def Let_def)

lemma initial_state_nonzero: "initial_state hex \<noteq> 0"
  by (simp add: initial_state_def Let_def)

lemma sint_xor_u32: "sint (a XOR b :: u32) = sint a XOR sint b"
  by (rule bit_eqI) (auto simp: bit_simps)
lemma to_int32_sint: "to_int32 x = sint (word_of_int x :: u32)"
proof -
  let ?m = "x mod 2 ^ 32"
  have e: "(x + 2 ^ 31) mod 2 ^ 32 = (?m + 2 ^ 31) mod (2 ^ 32 :: int)"
    by (simp add: mod_add_left_eq)
  have b: "0 \<le> ?m" "?m < 2 ^ 32" by simp_all
  show ?thesis
  proof (cases "?m < 2 ^ 31")
    case True
    then show ?thesis using e b by (simp add: to_int32_def int_word_sint)
  next
    case False
    have "(?m + 2 ^ 31) mod 2 ^ 32 = ((?m - 2 ^ 31) + 2 ^ 32) mod (2 ^ 32 :: int)"
      by (simp add: add.commute)
    also have "\<dots> = ?m - 2 ^ 31"
      using False b by (simp only: mod_add_self2) (simp add: mod_pos_pos_trivial)
    finally show ?thesis using e False by (simp add: to_int32_def int_word_sint)
  qed
qed

lemma js_xor_sint: "js_xor (sint w) (int c) = sint (w XOR word_of_nat c :: u32)"
  by (simp add: js_xor_def to_int32_sint sint_xor_u32)

lemma js_seed_fold_sint: "js_seed_fold hex i (sint w) = sint (seed_fold hex i w)"
proof (induction hex i w rule: seed_fold.induct)
  case (1 hex i s)
  then show ?case
    by (simp add: js_seed_fold.simps [of hex i] seed_fold.simps [of hex i] js_xor_sint)
qed

lemma sint_eq_0_u32: "sint (w :: u32) = 0 \<longleftrightarrow> w = 0"
  by (metis sint_0 scast_eq scast_id)

text \<open>C10: one call of the generator, as modelled on 32-bit words, returns exactly the
  numerator and the next state that JavaScript's number semantics give for the code of
  lines 48--50 (\<open>Math.imul\<close>, \<open>^\<close>, \<open>|\<close>, \<open>>>>\<close>, unwrapped \<open>+\<close>), from any
  JavaScript integer state.\<close>

theorem rnd_js_equiv:
  "rnd (word_of_int x) = (nat (js_rnd_numerator (js_step x)), word_of_int (js_step x))"
proof -
  have "unat (prng_next (word_of_int x)) = nat (to_uint32 (js_step x))"
    by (simp add: unat_eq_nat_uint uint_word_of_int_u32 flip: prng_next_js)
  then show ?thesis
    by (simp add: rnd_def js_rnd_numerator_def js_ushr_def prng_next_js nat_mod_distrib
        to_uint32_def)
qed

text \<open>C13: the seed depends only on the first 32 characters of the digest (16 of the 64
  bytes of HMAC-SHA512), whatever follows them.\<close>

theorem initial_state_take32: "initial_state (take 32 hex) = initial_state hex"
  by (simp add: initial_state_def seed_fold_take32)

text \<open>C21: the seed computed by \<open>xorshiftSeedFromHex\<close> in JavaScript's number semantics
  (signed \<open>^=\<close>, the test \<open>s === 0\<close> on the signed value, the unsigned constant
  \<open>0x9e3779b9\<close>) denotes the same 32-bit state as the word model \<open>initial_state\<close>.\<close>

theorem initial_state_js_equiv:
  "word_of_int (js_initial_state hex) = initial_state hex"
proof -
  have "js_seed_fold hex 0 0 = sint (seed_fold hex 0 0)"
    using js_seed_fold_sint [of hex 0 0] by simp
  then show ?thesis
    by (simp add: js_initial_state_def initial_state_def Let_def sint_eq_0_u32)
qed

end
