(* ===== verification/Layout.thy ===== *)
theory Layout
  imports Prng
begin

text \<open>
  The layout generator of \<open>src/server.js\<close>, \<open>generateBombs\<close> (lines 55--64). The digest
  \<open>HMAC-SHA512(serverSeed, `${clientSeed}:${nonce}`)\<close> (hex) seeds the generator of
  theory \<open>Prng\<close>; the identity permutation \<open>[0, totalCells)\<close> is shuffled by a
  backwards Fisher--Yates loop drawing \<open>j = floor(rnd() * (i + 1))\<close>; the first
  \<open>bombsCount\<close> entries (\<open>slice(0, bombsCount)\<close>) are sorted ascending.
  The HMAC is a parameter of type \<open>hmac_sha512_hex\<close> (key, message, hex digest): every
  lemma holds for any function in its place. \<open>rnd() * (i + 1)\<close> is computed exactly,
  as \<open>k * (i + 1) / 10^6\<close>: in doubles the product may round just below an integer,
  so for some \<open>k\<close> the drawn index is one less than \<open>draw_index\<close>. The lemmas here use
  only that the index lies in \<open>[0, i]\<close>, which holds in both. \<open>Array.from\<close> at line 58
  throws a \<open>RangeError\<close> for \<open>totalCells \<ge> 2^32\<close>; \<open>generate_bombs\<close> is used only below
  that bound, and the exception is modelled where it is caught, in \<open>start_game\<close>.
\<close>

type_synonym hmac_sha512_hex = "string \<Rightarrow> string \<Rightarrow> string"

section \<open>Definitions\<close>

text \<open>The loop \<open>for (let i = indices.length - 1; i > 0; i--)\<close>: the first argument is
  the current \<open>i\<close>, and the generator state is threaded through the calls.\<close>

text \<open>\<open>Math.floor(rnd() * (i + 1))\<close> (line 60) when \<open>rnd()\<close> returned \<open>k / 10^6\<close>.\<close>

definition draw_index :: "nat \<Rightarrow> nat \<Rightarrow> nat" where
  "draw_index k n = k * n div 1000000"

fun shuffle_loop :: "nat \<Rightarrow> nat list \<Rightarrow> u32 \<Rightarrow> nat list \<times> u32" where
  "shuffle_loop 0 indices s = (indices, s)"
| "shuffle_loop (Suc i) indices s =
     (let r = rnd s;
          j = draw_index (fst r) (Suc i + 1)
      in shuffle_loop i (swap indices (Suc i) j) (snd r))"

definition hmac_message :: "string \<Rightarrow> nat \<Rightarrow> string" where
  "hmac_message clientSeed nonce = clientSeed @ '':'' @ nat_to_string nonce"

text \<open>Lines 58--62: the identity permutation, shuffled in place.\<close>

definition shuffle_indices :: "nat \<Rightarrow> u32 \<Rightarrow> nat list" where
  "shuffle_indices totalCells s =
     (let indices = [0..<totalCells] in fst (shuffle_loop (length indices - 1) indices s))"

definition generate_bombs ::
  "hmac_sha512_hex \<Rightarrow> string \<Rightarrow> string \<Rightarrow> nat \<Rightarrow> nat \<Rightarrow> jsnum \<Rightarrow> nat list" where
  "generate_bombs hmac serverSeed clientSeed nonce totalCells bombsCount =
     (let hex = hmac serverSeed (hmac_message clientSeed nonce);
          rnd0 = initial_state hex
      in sort (js_slice0 (shuffle_indices totalCells rnd0) bombsCount))"

section \<open>Lemmas\<close>

lemma draw_index_lt: "k < 1000000 \<Longrightarrow> 0 < n \<Longrightarrow> draw_index k n < n"
proof -
  assume k: "k < 1000000" and n: "0 < n"
  then have "k * n < 1000000 * n" by simp
  then show ?thesis by (simp add: draw_index_def div_less_iff_less_mult mult.commute)
qed

lemma shuffle_loop_mset:
  "i < length xs \<Longrightarrow> mset (fst (shuffle_loop i xs s)) = mset xs"
proof (induction i arbitrary: xs s)
  case 0
  then show ?case by simp
next
  case (Suc i)
  let ?j = "draw_index (fst (rnd s)) (Suc i + 1)"
  have "?j < Suc i + 1"
    by (rule draw_index_lt [OF rnd_fst_lt]) simp
  then have j: "?j < length xs"
    using Suc.prems by simp
  have "mset (fst (shuffle_loop i (swap xs (Suc i) ?j) (snd (rnd s)))) = mset (swap xs (Suc i) ?j)"
    using Suc.IH Suc.prems by simp
  then show ?case
    using j Suc.prems by (simp add: Let_def)
qed

lemma shuffle_indices_mset: "mset (shuffle_indices n s) = mset [0..<n]"
proof (cases n)
  case 0
  then show ?thesis by (simp add: shuffle_indices_def)
next
  case (Suc m)
  then show ?thesis by (simp add: shuffle_indices_def shuffle_loop_mset del: upt_Suc)
qed

lemma distinct_shuffle_indices: "distinct (shuffle_indices n s)"
  using mset_eq_imp_distinct_iff [OF shuffle_indices_mset [of n s]] by simp

lemma length_shuffle_indices [simp]: "length (shuffle_indices n s) = n"
  using mset_eq_length [OF shuffle_indices_mset [of n s]] by simp

lemma set_shuffle_indices: "set (shuffle_indices n s) = {..<n}"
  using mset_eq_setD [OF shuffle_indices_mset [of n s]] by (simp add: atLeast0LessThan)

lemma generate_bombs_eq:
  "generate_bombs hmac serverSeed clientSeed nonce totalCells bombsCount =
     sort (take (js_slice_end totalCells bombsCount)
       (shuffle_indices totalCells (initial_state (hmac serverSeed (hmac_message clientSeed nonce)))))"
  by (simp add: generate_bombs_def js_slice0_def Let_def)

lemma sorted_generate_bombs: "sorted (generate_bombs hmac ss cs nonce cells b)"
  by (simp add: generate_bombs_eq)

lemma distinct_generate_bombs: "distinct (generate_bombs hmac ss cs nonce cells b)"
  by (simp add: generate_bombs_eq distinct_shuffle_indices)

lemma set_generate_bombs: "set (generate_bombs hmac ss cs nonce cells b) \<subseteq> {..<cells}"
proof -
  have "set (take (js_slice_end cells b) (shuffle_indices cells (initial_state (hmac ss (hmac_message cs nonce))))) \<subseteq> {..<cells}"
    using set_take_subset set_shuffle_indices by metis
  then show ?thesis by (simp add: generate_bombs_eq)
qed

lemma length_generate_bombs:
  "length (generate_bombs hmac ss cs nonce cells b) = js_slice_end cells b"
  by (simp add: generate_bombs_eq js_slice_end_le min_absorb1)

text \<open>C4: for a bomb count given as an integer \<open>b \<le> totalCells\<close>, the generator returns
  exactly \<open>b\<close> distinct cell indices below \<open>totalCells\<close>, in ascending order, whatever
  the seeds, the nonce and the HMAC.\<close>

theorem generate_bombs_valid:
  assumes "b \<le> totalCells"
  shows "length (generate_bombs hmac ss cs nonce totalCells (Num (of_nat b))) = b \<and>
         distinct (generate_bombs hmac ss cs nonce totalCells (Num (of_nat b))) \<and>
         sorted (generate_bombs hmac ss cs nonce totalCells (Num (of_nat b))) \<and>
         set (generate_bombs hmac ss cs nonce totalCells (Num (of_nat b))) \<subseteq> {..<totalCells}"
  using assms by (simp add: length_generate_bombs sorted_generate_bombs distinct_generate_bombs
      set_generate_bombs)

theorem generate_bombs_valid_witness:
  "length (generate_bombs (\<lambda>_ _. ''00'') ''seed'' ''abc'' 1 16 (Num (of_nat 3))) = 3 \<and>
   distinct (generate_bombs (\<lambda>_ _. ''00'') ''seed'' ''abc'' 1 16 (Num (of_nat 3))) \<and>
   sorted (generate_bombs (\<lambda>_ _. ''00'') ''seed'' ''abc'' 1 16 (Num (of_nat 3))) \<and>
   set (generate_bombs (\<lambda>_ _. ''00'') ''seed'' ''abc'' 1 16 (Num (of_nat 3))) \<subseteq> {..<16}"
  using generate_bombs_valid [of 3 16 "\<lambda>_ _. ''00''" "''seed''" "''abc''" 1] by simp

end
