(* ===== verification/Payout.thy ===== *)
theory Payout
  imports Prelude
begin

text \<open>
  The payout engine of \<open>src/server.js\<close>, \<open>computeMultiplier\<close> (lines 67--80). The
  survival probability of \<open>safeOpened\<close> draws without replacement is accumulated by a
  loop over JavaScript numbers (\<open>survival_loop\<close>; \<open>bombsCount\<close> is whatever
  \<open>Number(bombs)\<close> gave at game creation, so it may be fractional or \<open>NaN\<close>), the
  loop breaks with 0 when no cell remains, and the result is \<open>0.98 / survival\<close>
  through \<open>toFixed(6)\<close>. Numbers are exact rationals here: the double rounding of
  the products, of \<open>0.98\<close> and of the quotient, and the underflow of the product to 0 on
  large grids, are not modelled, so only properties that do not depend on the last
  binary digits (such as the type of the answer, C29) are stated about the multiplier.
\<close>

section \<open>Definitions\<close>

text \<open>The loop of lines 70--75, from index \<open>i\<close> with accumulated \<open>survival\<close>.\<close>

function survival_loop :: "nat \<Rightarrow> jsnum \<Rightarrow> nat \<Rightarrow> nat \<Rightarrow> jsnum \<Rightarrow> jsnum" where
  "survival_loop totalCells bombsCount safeOpened i survival =
     (if i < safeOpened then
        (let remainingSafe = js_sub (js_sub (Num (of_nat totalCells)) bombsCount) (Num (of_nat i));
             remainingCells = js_sub (Num (of_nat totalCells)) (Num (of_nat i))
         in if js_le remainingCells (Num 0) then Num 0
            else survival_loop totalCells bombsCount safeOpened (Suc i)
                   (js_mul survival (js_div remainingSafe remainingCells)))
      else survival)"
  by pat_completeness auto
termination
  by (relation "measure (\<lambda>(t, b, k, i, s). k - i)") auto

declare survival_loop.simps [simp del]

definition house_edge :: jsnum where
  "house_edge = Num (98 / 100)"

definition compute_multiplier :: "nat \<Rightarrow> jsnum \<Rightarrow> nat \<Rightarrow> jsnum" where
  "compute_multiplier totalCells bombsCount safeOpened =
     (if safeOpened \<le> 0 then Num 1
      else
        (let survival = survival_loop totalCells bombsCount safeOpened 0 (Num 1)
         in if js_le survival (Num 0) then Num 0
            else js_to_fixed6 (js_div house_edge survival)))"

section \<open>Lemmas\<close>

subsection \<open>The survival loop\<close>

lemma survival_loop_Num:
  "k \<le> t \<Longrightarrow> i \<le> k \<Longrightarrow>
   survival_loop t (Num b) k i (Num a) =
     Num (a * (\<Prod>j = i..<k. (of_nat t - b - of_nat j) / (of_nat t - of_nat j)))"
proof (induction t "Num b" k i "Num a" arbitrary: a rule: survival_loop.induct)
  case (1 t k i a)
  show ?case
  proof (cases "i < k")
    case True
    let ?f = "\<lambda>j. (of_nat t - b - of_nat j) / (of_nat t - (of_nat j :: rat))"
    have pos: "\<not> (of_nat t :: rat) - of_nat i \<le> 0"
      using True "1.prems" by simp
    have "survival_loop t (Num b) k i (Num a) = survival_loop t (Num b) k (Suc i) (Num (a * ?f i))"
      using True pos by (simp add: survival_loop.simps [of t "Num b" k i] Let_def)
    also have "\<dots> = Num (a * ?f i * (\<Prod>j = Suc i..<k. ?f j))"
      using "1.hyps" [OF True refl refl _ _, of "a * ?f i"] True pos "1.prems"
      by (simp add: Let_def)
    also have "\<dots> = Num (a * (\<Prod>j = i..<k. ?f j))"
      using True by (simp add: prod.atLeast_Suc_lessThan mult.assoc)
    finally show ?thesis .
  next
    case False
    then show ?thesis
      by (subst survival_loop.simps) simp
  qed
qed

text \<open>More draws than cells: the loop meets \<open>remainingCells = 0\<close> and breaks with 0.\<close>

lemma survival_loop_exhausted:
  "t < k \<Longrightarrow> i \<le> t \<Longrightarrow> survival_loop t b k i s = Num 0"
proof (induction t b k i s rule: survival_loop.induct)
  case (1 t b k i s)
  show ?case
  proof (cases "i = t")
    case True
    then show ?thesis
      using "1.prems" by (subst survival_loop.simps) (simp add: Let_def)
  next
    case False
    then have lt: "i < t" using "1.prems" by simp
    then have "i < k" using "1.prems" by simp
    with lt show ?thesis
      using "1.IH" "1.prems"
      by (subst survival_loop.simps) (simp add: Let_def)
  qed
qed

text \<open>A bomb count that is \<open>NaN\<close> poisons the product: the loop yields \<open>NaN\<close> as
  long as cells remain.\<close>

lemma survival_loop_NaN_bombs:
  "k \<le> t \<Longrightarrow> i < k \<Longrightarrow> survival_loop t NaN k i s = NaN"
proof (induction t NaN k i s rule: survival_loop.induct)
  case (1 t k i s)
  have pos: "\<not> js_le (js_sub (Num (of_nat t)) (Num (of_nat i))) (Num 0)"
    using "1.prems" by simp
  show ?case
  proof (cases "Suc i < k")
    case True
    then show ?thesis
      using "1.hyps" "1.prems" pos by (subst survival_loop.simps) (simp add: Let_def)
  next
    case False
    then have "survival_loop t NaN k (Suc i) NaN = NaN"
      by (subst survival_loop.simps) simp
    then show ?thesis
      using "1.prems" pos by (subst survival_loop.simps) (simp add: Let_def)
  qed
qed

subsection \<open>Properties of computeMultiplier\<close>

text \<open>A game created with a non-numeric bomb count (\<open>Number(bombs)\<close> is \<open>NaN\<close>)
  reports \<open>NaN\<close> for every reveal before the last cell.\<close>

lemma compute_multiplier_NaN_bombs:
  "0 < k \<Longrightarrow> k \<le> t \<Longrightarrow> compute_multiplier t NaN k = NaN"
  by (simp add: compute_multiplier_def survival_loop_NaN_bombs house_edge_def)

text \<open>What \<open>parseFloat(x.toFixed(6))\<close> gives for a non-negative \<open>x\<close>: a non-negative
  number that, below \<open>10\<^sup>2\<^sup>1\<close>, has at most six decimals.\<close>

lemma js_to_fixed6_decimals:
  assumes "0 \<le> x" and "js_to_fixed6 (Num x) = Num q"
  shows "0 \<le> q \<and> (q < 10 ^ 21 \<longrightarrow> q * 1000000 \<in> \<int>)"
proof (cases "10 ^ 21 \<le> \<bar>x\<bar>")
  case True
  then show ?thesis using assms by auto
next
  case False
  then have q: "q = round6 x"
    using assms by simp
  have "0 \<le> q"
    using round6_nonneg [OF assms(1)] q by simp
  moreover have "q * 1000000 \<in> \<int>"
    unfolding q round6_def by simp
  ultimately show ?thesis
    by simp
qed

lemma survival_loop_Num_any:
  "\<exists>s. survival_loop t (Num b) k 0 (Num 1) = Num s"
proof (cases "k \<le> t")
  case True
  then show ?thesis by (simp add: survival_loop_Num)
next
  case False
  then show ?thesis by (simp add: survival_loop_exhausted)
qed

text \<open>C29 (the type of a multiplier): \<open>computeMultiplier\<close> answers \<open>NaN\<close> exactly when the
  game's bomb count is \<open>NaN\<close> and \<open>0 < safeOpened \<le> totalCells\<close>; every other answer is
  a non-negative number which, below \<open>10\<^sup>2\<^sup>1\<close>, has at most six decimals (the value of
  a \<open>toFixed(6)\<close> string, or the constants 0 and 1).\<close>

theorem compute_multiplier_six_decimals:
  "(compute_multiplier t b k = NaN \<longleftrightarrow> b = NaN \<and> 0 < k \<and> k \<le> t) \<and>
   (\<forall>q. compute_multiplier t b k = Num q \<longrightarrow> 0 \<le> q \<and> (q < 10 ^ 21 \<longrightarrow> q * 1000000 \<in> \<int>))"
proof (cases "k = 0")
  case True
  then show ?thesis by (simp add: compute_multiplier_def)
next
  case k: False
  show ?thesis
  proof (cases b)
    case NaN
    show ?thesis
    proof (cases "k \<le> t")
      case True
      then show ?thesis
        using k NaN by (simp add: compute_multiplier_NaN_bombs)
    next
      case False
      then show ?thesis
        using k NaN by (simp add: compute_multiplier_def survival_loop_exhausted)
    qed
  next
    case (Num bq)
    obtain s where s: "survival_loop t (Num bq) k 0 (Num 1) = Num s"
      using survival_loop_Num_any by blast
    have "0 \<le> q \<and> (q < 10 ^ 21 \<longrightarrow> q * 1000000 \<in> \<int>)"
      if "js_to_fixed6 (Num (98 / 100 / s)) = Num q" and "0 < s" for q
      using js_to_fixed6_decimals [OF _ that(1)] that(2) by simp
    then show ?thesis
      using k Num s by (auto simp: compute_multiplier_def house_edge_def not_le)
  qed
qed

theorem compute_multiplier_six_decimals_witness:
  "compute_multiplier 16 (Num 3) 1 \<noteq> NaN \<and> (1206154 / 1000000 :: rat) * 1000000 \<in> \<int>"
proof -
  have m: "compute_multiplier 16 (Num 3) 1 = Num (1206154 / 1000000)"
    by code_simp
  show ?thesis
    using compute_multiplier_six_decimals [of 16 "Num 3" 1] m by simp
qed

end
