(* ===== verification/Game.thy ===== *)
theory Game
  imports Layout Payout
begin

text \<open>
  The request handlers of \<open>src/server.js\<close> over the in-memory \<open>history\<close> array:
  \<open>POST /api/start\<close> (lines 83--123), \<open>POST /api/reveal\<close> (126--155),
  \<open>POST /api/cashout\<close> (158--176), \<open>GET /api/history\<close> (179--182) and
  \<open>GET /api/verify/:gameId\<close> (185--203), with the entropy source
  \<open>fetchTrxBlockId\<close> (28--37) and the server-seed derivation (93--94).
  A game object is a record; the history is the list of game records in push order;
  a handler returns an error (\<open>Inl\<close>: the HTTP 4xx answer, or the 500 of the catch of
  \<open>/api/start\<close> when \<open>Array.from\<close> throws; history unchanged) or its
  JSON answer together with the new history (\<open>Inr\<close>). A request field that the code
  reads as \<open>!x\<close> and \<open>Number(x)\<close> is given as the pair of the two readings
  (\<open>js_arg\<close>). The outcome of the TronGrid call, the clock, the UUID and the HMAC
  are inputs of the handlers. Writing \<open>history.json\<close> is modelled in theory \<open>Persistence\<close>.
\<close>

section \<open>Definitions\<close>

subsection \<open>Data\<close>

text \<open>\<open>game.result\<close>: \<open>null\<close>, \<open>'lost'\<close> or \<open>'cashed'\<close>.\<close>

datatype game_result = NoResult | Lost | Cashed

record game =
  game_id :: string
  created_at :: string
  size :: nat
  bombs :: jsnum
  total_cells :: nat
  client_seed :: string
  server_seed :: string
  nonce :: nat
  bet :: jsnum
  bombs_positions :: "nat list"
  opened :: "nat list"
  finished :: bool
  result :: game_result
  payout_multiplier :: "jsnum option"

type_synonym history = "game list"

text \<open>The error answers, by their messages.\<close>

datatype api_error =
    MissingParams | InvalidSize | InvalidBombsCount
  | GameNotFound | GameAlreadyFinished | InvalidIndex | CellAlreadyOpened
  | ServerError


text \<open>A request field read both as \<open>!x\<close> (first component: the field is truthy) and
  as \<open>Number(x)\<close> (second component).\<close>

type_synonym js_arg = "bool \<times> jsnum"

record start_request =
  req_size :: js_arg
  req_bombs :: js_arg
  req_client_seed :: "string option"
  req_bet :: js_arg

text \<open>What \<open>axios.post\<close> to TronGrid gave: an answer whose \<open>data.blockID\<close> is present
  or not, or a failure (network error, timeout of 5000 ms).\<close>

datatype fetch_outcome = FetchAnswer "string option" | FetchFailed

record start_env =
  env_fetch :: fetch_outcome
  env_now_ms :: nat
  env_now_iso :: string
  env_uuid :: string

record start_response =
  started_id :: string
  server_seed_public :: string
  started_nonce :: nat

record reveal_response =
  is_bomb :: bool
  resp_opened :: "nat list"
  multiplier :: jsnum
  resp_game :: game

record cashout_response =
  payout :: jsnum
  cashed_game :: game

record game_summary =
  sum_id :: string
  sum_created_at :: string
  sum_size :: nat
  sum_bombs :: jsnum
  sum_bet :: jsnum
  sum_result :: game_result
  sum_nonce :: nat

record disclosure =
  dis_id :: string
  dis_created_at :: string
  dis_size :: nat
  dis_bombs :: jsnum
  dis_total_cells :: nat
  dis_client_seed :: string
  dis_server_seed :: string
  dis_nonce :: nat
  dis_bombs_positions :: "nat list"
  dis_opened :: "nat list"
  dis_result :: game_result
  dis_bet :: jsnum

subsection \<open>Entropy provider\<close>

definition fetch_trx_block_id :: "fetch_outcome \<Rightarrow> string option" where
  "fetch_trx_block_id r =
     (case r of
        FetchAnswer (Some b) \<Rightarrow> if b = [] then None else Some b
      | FetchAnswer None \<Rightarrow> None
      | FetchFailed \<Rightarrow> None)"

definition derive_server_seed :: "string option \<Rightarrow> nat \<Rightarrow> string" where
  "derive_server_seed blockId nowMs =
     (case blockId of
        Some b \<Rightarrow> if b = [] then ''fallback-'' @ nat_to_string nowMs else b @ ''2''
      | None \<Rightarrow> ''fallback-'' @ nat_to_string nowMs)"

subsection \<open>Helpers\<close>

text \<open>\<open>history.find(g => g.id === gameId)\<close>, with the position of the object found, which
  is where the handlers' in-place mutations land.\<close>

definition lookup_game :: "history \<Rightarrow> string \<Rightarrow> (nat \<times> game) option" where
  "lookup_game h gid =
     (let p = length (takeWhile (\<lambda>g. game_id g \<noteq> gid) h)
      in if p < length h then Some (p, h ! p) else None)"

text \<open>The integer a \<open>Number\<close> holds once \<open>Number.isInteger\<close> and a range check have
  passed.\<close>

definition js_nat :: "jsnum \<Rightarrow> nat" where
  "js_nat x = nat (js_to_integer x)"

definition client_seed_missing :: "string option \<Rightarrow> bool" where
  "client_seed_missing cs = (case cs of None \<Rightarrow> True | Some s \<Rightarrow> s = [])"

subsection \<open>Handlers\<close>

definition start_game ::
  "hmac_sha512_hex \<Rightarrow> start_env \<Rightarrow> start_request \<Rightarrow> history \<Rightarrow>
   api_error + (start_response \<times> history)" where
  "start_game hmac env req h =
     (if \<not> fst (req_size req) \<or> \<not> fst (req_bombs req) \<or> client_seed_missing (req_client_seed req)
      then Inl MissingParams
      else
        (let sizeN = snd (req_size req); bombsN = snd (req_bombs req) in
         if \<not> js_is_integer sizeN \<or> js_le sizeN (Num 0) then Inl InvalidSize
         else
           (let sz = js_nat sizeN; totalCells = sz * sz in
            if js_lt bombsN (Num 1) \<or> js_le (Num (of_nat totalCells)) bombsN
            then Inl InvalidBombsCount
            else
              (case req_client_seed req of
                 None \<Rightarrow> Inl MissingParams
               | Some clientSeed \<Rightarrow>
                   (let blockId = fetch_trx_block_id (env_fetch env);
                        serverSeed = derive_server_seed blockId (env_now_ms env);
                        nonce = length h + 1
                    in if 2 ^ 32 \<le> totalCells then Inl ServerError
                    else
                   (let positions = generate_bombs hmac serverSeed clientSeed nonce totalCells bombsN;
                        g = \<lparr>game_id = env_uuid env, created_at = env_now_iso env, size = sz,
                             bombs = bombsN, total_cells = totalCells, client_seed = clientSeed,
                             server_seed = serverSeed, nonce = nonce,
                             bet = (if fst (req_bet req) then snd (req_bet req) else Num 0),
                             bombs_positions = positions, opened = [], finished = False,
                             result = NoResult, payout_multiplier = None\<rparr>
                    in Inr (\<lparr>started_id = game_id g, server_seed_public = server_seed g,
                              started_nonce = nonce\<rparr>, h @ [g])))))))"

definition reveal_cell ::
  "history \<Rightarrow> string \<Rightarrow> jsnum \<Rightarrow> api_error + (reveal_response \<times> history)" where
  "reveal_cell h gameId index =
     (case lookup_game h gameId of
        None \<Rightarrow> Inl GameNotFound
      | Some (p, g) \<Rightarrow>
          if finished g then Inl GameAlreadyFinished
          else if \<not> js_is_integer index \<or> js_lt index (Num 0)
                  \<or> js_le (Num (of_nat (total_cells g))) index
          then Inl InvalidIndex
          else
            (let idx = js_nat index in
             if idx \<in> set (opened g) then Inl CellAlreadyOpened
             else if idx \<in> set (bombs_positions g) then
               (let g' = g\<lparr>opened := opened g @ [idx], finished := True, result := Lost\<rparr>
                in Inr (\<lparr>is_bomb = True, resp_opened = opened g', multiplier = Num 0,
                         resp_game = g'\<rparr>, h[p := g']))
             else
               (let g' = g\<lparr>opened := opened g @ [idx]\<rparr>;
                    m = compute_multiplier (total_cells g') (bombs g') (length (opened g'))
                in Inr (\<lparr>is_bomb = False, resp_opened = opened g', multiplier = m,
                         resp_game = g'\<rparr>, h[p := g']))))"

definition cashout ::
  "history \<Rightarrow> string \<Rightarrow> api_error + (cashout_response \<times> history)" where
  "cashout h gameId =
     (case lookup_game h gameId of
        None \<Rightarrow> Inl GameNotFound
      | Some (p, g) \<Rightarrow>
          if finished g then Inl GameAlreadyFinished
          else
            (let m = compute_multiplier (total_cells g) (bombs g) (length (opened g));
                 g' = g\<lparr>finished := True, result := Cashed, payout_multiplier := Some m\<rparr>
             in Inr (\<lparr>payout = m, cashed_game = g'\<rparr>, h[p := g'])))"

definition summarize :: "game \<Rightarrow> game_summary" where
  "summarize g =
     \<lparr>sum_id = game_id g, sum_created_at = created_at g, sum_size = size g,
      sum_bombs = bombs g, sum_bet = bet g, sum_result = result g, sum_nonce = nonce g\<rparr>"

text \<open>\<open>history.slice(-200).map(...).reverse()\<close>.\<close>

definition history_summary :: "history \<Rightarrow> game_summary list" where
  "history_summary h = rev (map summarize (drop (length h - 200) h))"

definition verify_game :: "history \<Rightarrow> string \<Rightarrow> api_error + disclosure" where
  "verify_game h gameId =
     (case lookup_game h gameId of
        None \<Rightarrow> Inl GameNotFound
      | Some (_, g) \<Rightarrow>
          Inr \<lparr>dis_id = game_id g, dis_created_at = created_at g, dis_size = size g,
               dis_bombs = bombs g, dis_total_cells = total_cells g,
               dis_client_seed = client_seed g, dis_server_seed = server_seed g,
               dis_nonce = nonce g, dis_bombs_positions = bombs_positions g,
               dis_opened = opened g, dis_result = result g, dis_bet = bet g\<rparr>)"

section \<open>Lemmas\<close>

subsection \<open>Lookup\<close>

lemma lookup_game_iff:
  "lookup_game h gid = Some (p, g) \<longleftrightarrow>
     p < length h \<and> h ! p = g \<and> game_id g = gid \<and> (\<forall>i<p. game_id (h ! i) \<noteq> gid)"
proof
  assume l: "lookup_game h gid = Some (p, g)"
  let ?P = "\<lambda>g. game_id g \<noteq> gid"
  have p: "p = length (takeWhile ?P h)" and lt: "p < length h" and g: "h ! p = g"
    using l by (auto simp: lookup_game_def Let_def split: if_splits)
  have "game_id g = gid"
    using nth_length_takeWhile [of ?P h] lt p g by simp
  moreover have "\<forall>i<p. game_id (h ! i) \<noteq> gid"
  proof (intro allI impI)
    fix i assume "i < p"
    then have i: "i < length (takeWhile ?P h)"
      using p by simp
    then have "takeWhile ?P h ! i \<in> set (takeWhile ?P h)"
      by (rule nth_mem)
    then show "game_id (h ! i) \<noteq> gid"
      using set_takeWhileD takeWhile_nth [OF i] by metis
  qed
  ultimately show "p < length h \<and> h ! p = g \<and> game_id g = gid \<and> (\<forall>i<p. game_id (h ! i) \<noteq> gid)"
    using lt g by simp
next
  assume r: "p < length h \<and> h ! p = g \<and> game_id g = gid \<and> (\<forall>i<p. game_id (h ! i) \<noteq> gid)"
  let ?P = "\<lambda>g. game_id g \<noteq> gid"
  have ge: "p \<le> length (takeWhile ?P h)"
    using r by (intro length_takeWhile_less_P_nth) auto
  have "\<not> p < length (takeWhile ?P h)"
  proof
    assume "p < length (takeWhile ?P h)"
    then have "h ! p \<in> set (takeWhile ?P h)"
      by (metis nth_mem takeWhile_nth)
    then show False
      using r set_takeWhileD by fastforce
  qed
  with ge r show "lookup_game h gid = Some (p, g)"
    by (simp add: lookup_game_def Let_def)
qed

lemma lookup_game_update:
  "lookup_game h gid = Some (p, g) \<Longrightarrow> game_id g' = gid \<Longrightarrow>
   lookup_game (h[p := g']) gid = Some (p, g')"
  by (simp add: lookup_game_iff)

lemma lookup_game_append:
  "lookup_game h gid = Some (p, g) \<Longrightarrow> lookup_game (h @ [g']) gid = Some (p, g)"
  by (simp add: lookup_game_iff nth_append)

lemma lookup_game_in_set: "lookup_game h gid = Some (p, g) \<Longrightarrow> g \<in> set h"
  by (auto simp: lookup_game_iff)

subsection \<open>Index checks\<close>

lemma js_index_valid:
  assumes "\<not> (\<not> js_is_integer x \<or> js_lt x (Num 0) \<or> js_le (Num (of_nat n)) x)"
  shows "x = Num (of_nat (js_nat x)) \<and> js_nat x < n"
proof (cases x)
  case (Num q)
  with assms have int: "of_int \<lfloor>q\<rfloor> = q" and q0: "0 \<le> q" and qn: "q < of_nat n"
    by auto
  have "q = of_nat (nat \<lfloor>q\<rfloor>)"
    using int q0 by (metis floor_of_int nat_0_le of_int_of_nat_eq zero_le_floor)
  moreover have "nat \<lfloor>q\<rfloor> < n"
    using qn q0 by linarith
  ultimately show ?thesis
    using Num q0 by (simp add: js_nat_def)
next
  case NaN
  with assms show ?thesis by simp
qed

lemma js_index_check_nat:
  "(\<not> js_is_integer (Num (of_nat i)) \<or> js_lt (Num (of_nat i)) (Num 0)
     \<or> js_le (Num (of_nat n)) (Num (of_nat i))) = (n \<le> i)"
  by simp

lemma js_nat_of_nat [simp]: "js_nat (Num (of_nat i)) = i"
  by (simp add: js_nat_def)

lemma js_size_pos:
  "\<not> (\<not> js_is_integer x \<or> js_le x (Num 0)) \<Longrightarrow> 0 < js_nat x"
  by (cases x) (auto simp: js_nat_def)

subsection \<open>The reveal handler, branch by branch\<close>

lemma reveal_cell_safe:
  assumes "lookup_game h gid = Some (p, g)" and "\<not> finished g" and "idx < total_cells g"
    and "idx \<notin> set (opened g)" and "idx \<notin> set (bombs_positions g)"
  shows "reveal_cell h gid (Num (of_nat idx)) =
           Inr (\<lparr>is_bomb = False, resp_opened = opened g @ [idx],
                  multiplier = compute_multiplier (total_cells g) (bombs g) (Suc (length (opened g))),
                  resp_game = g\<lparr>opened := opened g @ [idx]\<rparr>\<rparr>,
                h[p := g\<lparr>opened := opened g @ [idx]\<rparr>])"
  using assms by (simp add: reveal_cell_def Let_def)

lemma reveal_cell_bomb:
  assumes "lookup_game h gid = Some (p, g)" and "\<not> finished g" and "idx < total_cells g"
    and "idx \<notin> set (opened g)" and "idx \<in> set (bombs_positions g)"
  shows "reveal_cell h gid (Num (of_nat idx)) =
           Inr (\<lparr>is_bomb = True, resp_opened = opened g @ [idx], multiplier = Num 0,
                  resp_game = g\<lparr>opened := opened g @ [idx], finished := True, result := Lost\<rparr>\<rparr>,
                h[p := g\<lparr>opened := opened g @ [idx], finished := True, result := Lost\<rparr>])"
  using assms by (simp add: reveal_cell_def Let_def)

text \<open>A successful reveal passed every check of the handler, with a valid index.\<close>

lemma reveal_cell_Inr:
  assumes "reveal_cell h gid x = Inr (r, h')"
  shows "\<exists>p g idx. lookup_game h gid = Some (p, g) \<and> \<not> finished g \<and> x = Num (of_nat idx) \<and>
           idx < total_cells g \<and> idx \<notin> set (opened g)"
proof -
  obtain p g where l: "lookup_game h gid = Some (p, g)"
    using assms by (auto simp: reveal_cell_def split: option.splits)
  have nf: "\<not> finished g"
    and chk: "\<not> (\<not> js_is_integer x \<or> js_lt x (Num 0) \<or> js_le (Num (of_nat (total_cells g))) x)"
    and no: "js_nat x \<notin> set (opened g)"
    using assms l by (auto simp: reveal_cell_def Let_def split: if_splits)
  show ?thesis
    using l nf no js_index_valid [OF chk] by blast
qed

lemma reveal_cell_errors:
  "lookup_game h gid = None \<Longrightarrow> reveal_cell h gid x = Inl GameNotFound"
  "lookup_game h gid = Some (p, g) \<Longrightarrow> finished g \<Longrightarrow>
     reveal_cell h gid x = Inl GameAlreadyFinished"
  "lookup_game h gid = Some (p, g) \<Longrightarrow> \<not> finished g \<Longrightarrow> total_cells g \<le> i \<Longrightarrow>
     reveal_cell h gid (Num (of_nat i)) = Inl InvalidIndex"
  "lookup_game h gid = Some (p, g) \<Longrightarrow> \<not> finished g \<Longrightarrow>
     reveal_cell h gid NaN = Inl InvalidIndex"
  "lookup_game h gid = Some (p, g) \<Longrightarrow> \<not> finished g \<Longrightarrow> i < total_cells g \<Longrightarrow>
     i \<in> set (opened g) \<Longrightarrow> reveal_cell h gid (Num (of_nat i)) = Inl CellAlreadyOpened"
  by (simp_all add: reveal_cell_def Let_def)

subsection \<open>The cashout handler\<close>

lemma cashout_active:
  assumes "lookup_game h gid = Some (p, g)" and "\<not> finished g"
  shows "cashout h gid =
           Inr (\<lparr>payout = compute_multiplier (total_cells g) (bombs g) (length (opened g)),
                  cashed_game = g\<lparr>finished := True, result := Cashed,
                    payout_multiplier := Some (compute_multiplier (total_cells g) (bombs g) (length (opened g)))\<rparr>\<rparr>,
                h[p := g\<lparr>finished := True, result := Cashed,
                    payout_multiplier := Some (compute_multiplier (total_cells g) (bombs g) (length (opened g)))\<rparr>])"
  using assms by (simp add: cashout_def Let_def)

lemma cashout_Inr:
  "cashout h gid = Inr (r, h') \<Longrightarrow> \<exists>p g. lookup_game h gid = Some (p, g) \<and> \<not> finished g"
  by (auto simp: cashout_def split: option.splits if_splits)

lemma cashout_errors:
  "lookup_game h gid = None \<Longrightarrow> cashout h gid = Inl GameNotFound"
  "lookup_game h gid = Some (p, g) \<Longrightarrow> finished g \<Longrightarrow> cashout h gid = Inl GameAlreadyFinished"
  by (simp_all add: cashout_def)

subsection \<open>The start handler\<close>

lemma start_game_Inr:
  assumes "start_game hmac env req h = Inr (r, h')"
  shows "\<exists>g. h' = h @ [g] \<and> nonce g = length h + 1 \<and> opened g = [] \<and> \<not> finished g \<and>
           result g = NoResult \<and> payout_multiplier g = None \<and> 0 < size g \<and>
           total_cells g = size g * size g \<and>
           bombs_positions g = generate_bombs hmac (server_seed g) (client_seed g) (nonce g)
                                 (total_cells g) (bombs g) \<and>
           started_id r = game_id g \<and> server_seed_public r = server_seed g \<and>
           started_nonce r = nonce g"
proof -
  have ok: "\<not> (\<not> js_is_integer (snd (req_size req)) \<or> js_le (snd (req_size req)) (Num 0))"
    using assms by (auto simp: start_game_def Let_def split: if_splits)
  show ?thesis
    using assms js_size_pos [OF ok]
    by (auto simp: start_game_def Let_def split: if_splits option.splits)
qed

subsection \<open>Properties of the handlers\<close>

text \<open>C2: once a game has ended, by a bomb or by a cashout, every later reveal and every
  later cashout of it is answered \<open>game already finished\<close> and leaves the history as
  it is.\<close>

theorem ended_game_rejects:
  assumes "cashout h gid = Inr (c, h') \<or> (reveal_cell h gid x = Inr (r, h') \<and> is_bomb r)"
  shows "reveal_cell h' gid y = Inl GameAlreadyFinished \<and> cashout h' gid = Inl GameAlreadyFinished"
proof -
  have "\<exists>p g'. lookup_game h' gid = Some (p, g') \<and> finished g'"
  proof (cases "cashout h gid = Inr (c, h')")
    case True
    then obtain p g where l: "lookup_game h gid = Some (p, g)" and nf: "\<not> finished g"
      using cashout_Inr by blast
    then have "game_id g = gid" by (simp add: lookup_game_iff)
    then show ?thesis
      using True cashout_active [OF l nf] lookup_game_update [OF l] by auto
  next
    case False
    with assms have rv: "reveal_cell h gid x = Inr (r, h')" and b: "is_bomb r" by auto
    then obtain p g idx where l: "lookup_game h gid = Some (p, g)" and nf: "\<not> finished g"
      and x: "x = Num (of_nat idx)" and lt: "idx < total_cells g" and no: "idx \<notin> set (opened g)"
      using reveal_cell_Inr by blast
    have gid: "game_id g = gid" using l by (simp add: lookup_game_iff)
    show ?thesis
    proof (cases "idx \<in> set (bombs_positions g)")
      case True
      then show ?thesis
        using rv x reveal_cell_bomb [OF l nf lt no True] lookup_game_update [OF l] gid by auto
    next
      case False
      then show ?thesis
        using rv b x reveal_cell_safe [OF l nf lt no False] by auto
    qed
  qed
  then show ?thesis
    using reveal_cell_errors(2) cashout_errors(2) by blast
qed

theorem ended_game_rejects_witness:
  "\<exists>c h'. cashout [\<lparr>game_id = ''g'', created_at = '''', size = 2, bombs = Num 1,
       total_cells = 4, client_seed = ''c'', server_seed = ''s'', nonce = 1, bet = Num 0,
       bombs_positions = [0], opened = [], finished = False, result = NoResult,
       payout_multiplier = None\<rparr>] ''g'' = Inr (c, h') \<and>
     reveal_cell h' ''g'' (Num 2) = Inl GameAlreadyFinished \<and>
     cashout h' ''g'' = Inl GameAlreadyFinished"
proof -
  let ?h = "[\<lparr>game_id = ''g'', created_at = '''', size = 2, bombs = Num 1,
       total_cells = 4, client_seed = ''c'', server_seed = ''s'', nonce = 1, bet = Num 0,
       bombs_positions = [0], opened = [], finished = False, result = NoResult,
       payout_multiplier = None\<rparr>]"
  obtain c h' where c: "cashout ?h ''g'' = Inr (c, h')"
    by (simp add: cashout_def lookup_game_def Let_def)
  show ?thesis
    using c ended_game_rejects [OF disjI1 [OF c]] by blast
qed

text \<open>C3: a cell revealed once cannot be revealed again: the second request is refused
  (\<open>cell already opened\<close>, or \<open>game already finished\<close> when the cell was a bomb), and
  the first one appended exactly one cell to the game's opened list.\<close>

theorem reveal_twice:
  assumes "reveal_cell h gid x = Inr (r, h')"
  shows "reveal_cell h' gid x = Inl (if is_bomb r then GameAlreadyFinished else CellAlreadyOpened) \<and>
         (\<exists>p g g'. lookup_game h gid = Some (p, g) \<and> lookup_game h' gid = Some (p, g') \<and>
                   length (opened g') = Suc (length (opened g)))"
proof -
  obtain p g idx where l: "lookup_game h gid = Some (p, g)" and nf: "\<not> finished g"
    and x: "x = Num (of_nat idx)" and lt: "idx < total_cells g" and no: "idx \<notin> set (opened g)"
    using reveal_cell_Inr [OF assms] by blast
  have gid: "game_id g = gid" using l by (simp add: lookup_game_iff)
  show ?thesis
  proof (cases "idx \<in> set (bombs_positions g)")
    case True
    let ?g' = "g\<lparr>opened := opened g @ [idx], finished := True, result := Lost\<rparr>"
    have l': "lookup_game h' gid = Some (p, ?g')"
      using assms x reveal_cell_bomb [OF l nf lt no True] lookup_game_update [OF l] gid by auto
    then show ?thesis
      using assms x reveal_cell_bomb [OF l nf lt no True] reveal_cell_errors(2) [OF l'] l by auto
  next
    case False
    let ?g' = "g\<lparr>opened := opened g @ [idx]\<rparr>"
    have l': "lookup_game h' gid = Some (p, ?g')"
      using assms x reveal_cell_safe [OF l nf lt no False] lookup_game_update [OF l] gid by auto
    have "reveal_cell h' gid x = Inl CellAlreadyOpened"
      using reveal_cell_errors(5) [OF l', of idx] nf lt x by simp
    then show ?thesis
      using assms x reveal_cell_safe [OF l nf lt no False] l l' by auto
  qed
qed

text \<open>C12: the answer to a successful reveal that is not a bomb carries the whole game
  object, bomb positions included, while the game is still running.\<close>

theorem reveal_response_discloses_layout:
  assumes "reveal_cell h gid x = Inr (r, h')" and "\<not> is_bomb r"
  shows "\<not> finished (resp_game r) \<and>
         (\<exists>p g. lookup_game h gid = Some (p, g) \<and> bombs_positions (resp_game r) = bombs_positions g)"
proof -
  obtain p g idx where l: "lookup_game h gid = Some (p, g)" and nf: "\<not> finished g"
    and x: "x = Num (of_nat idx)" and lt: "idx < total_cells g" and no: "idx \<notin> set (opened g)"
    using reveal_cell_Inr [OF assms(1)] by blast
  show ?thesis
  proof (cases "idx \<in> set (bombs_positions g)")
    case True
    then show ?thesis
      using assms x reveal_cell_bomb [OF l nf lt no True] by auto
  next
    case False
    then show ?thesis
      using assms x reveal_cell_safe [OF l nf lt no False] l nf by auto
  qed
qed

text \<open>C11: \<open>/api/start\<close> checks the bomb count only with \<open>bombsN < 1\<close> and
  \<open>bombsN >= totalCells\<close>, which are both false for \<open>NaN\<close>: a non-numeric bomb count
  (a truthy string such as \<open>"abc"\<close>) starts a game with no bomb at all, and a
  fractional one (2.5) a game whose layout has fewer bombs (2) than its recorded count.\<close>

theorem start_game_unchecked_bombs:
  "(\<exists>r g. start_game hmac env \<lparr>req_size = (True, Num 4), req_bombs = (True, NaN),
       req_client_seed = Some ''abc'', req_bet = bt\<rparr> h = Inr (r, h @ [g]) \<and>
       bombs g = NaN \<and> bombs_positions g = []) \<and>
   (\<exists>r g. start_game hmac env \<lparr>req_size = (True, Num 4), req_bombs = (True, Num (5 / 2)),
       req_client_seed = Some ''abc'', req_bet = bt\<rparr> h = Inr (r, h @ [g]) \<and>
       bombs g = Num (5 / 2) \<and> length (bombs_positions g) = 2)"
proof -
  have "\<lfloor>5 / 2 :: rat\<rfloor> = 2"
    by (simp add: floor_eq_iff)
  then have e: "js_slice_end 16 (Num (5 / 2)) = 2"
    by (simp add: js_slice_end_def)
  show ?thesis
    by (simp add: start_game_def Let_def client_seed_missing_def js_nat_def length_generate_bombs e
        flip: length_0_conv)
qed

theorem reveal_twice_witness:
  "\<exists>r h'. reveal_cell [\<lparr>game_id = ''g'', created_at = '''', size = 2, bombs = Num 1,
       total_cells = 4, client_seed = ''c'', server_seed = ''s'', nonce = 1, bet = Num 0,
       bombs_positions = [0], opened = [], finished = False, result = NoResult,
       payout_multiplier = None\<rparr>] ''g'' (Num 1) = Inr (r, h') \<and>
     reveal_cell h' ''g'' (Num 1) = Inl (if is_bomb r then GameAlreadyFinished else CellAlreadyOpened)"
proof -
  let ?h = "[\<lparr>game_id = ''g'', created_at = '''', size = 2, bombs = Num 1,
       total_cells = 4, client_seed = ''c'', server_seed = ''s'', nonce = 1, bet = Num 0,
       bombs_positions = [0], opened = [], finished = False, result = NoResult,
       payout_multiplier = None\<rparr>]"
  obtain r h' where rv: "reveal_cell ?h ''g'' (Num 1) = Inr (r, h')"
    by (simp add: reveal_cell_def lookup_game_def Let_def js_nat_def)
  show ?thesis
    using rv reveal_twice [OF rv] by blast
qed

theorem reveal_response_discloses_layout_witness:
  "\<exists>r h'. reveal_cell [\<lparr>game_id = ''g'', created_at = '''', size = 2, bombs = Num 1,
       total_cells = 4, client_seed = ''c'', server_seed = ''s'', nonce = 1, bet = Num 0,
       bombs_positions = [0], opened = [], finished = False, result = NoResult,
       payout_multiplier = None\<rparr>] ''g'' (Num 1) = Inr (r, h') \<and> \<not> is_bomb r \<and>
     \<not> finished (resp_game r) \<and> bombs_positions (resp_game r) = [0]"
proof -
  let ?g = "\<lparr>game_id = ''g'', created_at = '''', size = 2, bombs = Num 1,
       total_cells = 4, client_seed = ''c'', server_seed = ''s'', nonce = 1, bet = Num 0,
       bombs_positions = [0::nat], opened = [], finished = False, result = NoResult,
       payout_multiplier = None\<rparr>"
  obtain r h' where rv: "reveal_cell [?g] ''g'' (Num 1) = Inr (r, h')" and nb: "\<not> is_bomb r"
    by (simp add: reveal_cell_def lookup_game_def Let_def js_nat_def)
  have "\<exists>p g. lookup_game [?g] ''g'' = Some (p, g) \<and> bombs_positions (resp_game r) = bombs_positions g"
    and "\<not> finished (resp_game r)"
    using reveal_response_discloses_layout [OF rv nb] by blast+
  then show ?thesis
    using rv nb by (auto simp: lookup_game_def)
qed

text \<open>C9: a start request with a positive integer size \<open>n\<close> whose grid
  \<open>Array.from\<close> can allocate (\<open>n\<^sup>2 < 2\<^sup>3\<^sup>2\<close>), an integer bomb count
  \<open>1 \<le> b < n\<^sup>2\<close> and a client seed succeeds and appends one game: nonce
  \<open>|history| + 1\<close>, nothing opened, running, with exactly \<open>b\<close> distinct bombs below
  \<open>n\<^sup>2\<close>, which are the layout \<open>generateBombs\<close> computes from the game's own
  disclosed seeds, nonce and sizes.\<close>

theorem start_game_valid:
  assumes "0 < n" and "n * n < 2 ^ 32" and "1 \<le> b" and "b < n * n" and "cs \<noteq> []"
  shows "\<exists>r g. start_game hmac env \<lparr>req_size = (True, Num (of_nat n)),
            req_bombs = (True, Num (of_nat b)), req_client_seed = Some cs, req_bet = bt\<rparr> h
              = Inr (r, h @ [g]) \<and>
           nonce g = Suc (length h) \<and> opened g = [] \<and> \<not> finished g \<and> total_cells g = n * n \<and>
           length (bombs_positions g) = b \<and> distinct (bombs_positions g) \<and>
           set (bombs_positions g) \<subseteq> {..<n * n} \<and>
           bombs_positions g = generate_bombs hmac (server_seed g) (client_seed g) (nonce g)
                                 (total_cells g) (bombs g)"
proof -
  have b: "b \<le> n * n" using assms(4) by simp
  have nb: "\<not> (of_nat (n * n) :: rat) \<le> of_nat b"
    using assms(4) by (simp only: of_nat_le_iff not_le)
  have nb2: "\<not> n * n \<le> b"
    using assms(4) by simp
  have big: "\<not> 2 ^ 32 \<le> n * n"
    using assms(2) by simp
  show ?thesis
    using assms nb nb2 b big set_generate_bombs [of _ _ _ _ "n * n"]
    by (simp add: start_game_def Let_def client_seed_missing_def length_generate_bombs
        distinct_generate_bombs js_slice_end_nat)
qed

theorem start_game_valid_witness:
  "\<exists>r g. start_game (\<lambda>_ _. ''00'')
            \<lparr>env_fetch = FetchFailed, env_now_ms = 0, env_now_iso = ''t'', env_uuid = ''g''\<rparr>
            \<lparr>req_size = (True, Num (of_nat 4)), req_bombs = (True, Num (of_nat 3)),
             req_client_seed = Some ''abc'', req_bet = (True, Num 1)\<rparr> []
              = Inr (r, [g]) \<and>
           nonce g = 1 \<and> opened g = [] \<and> \<not> finished g \<and> total_cells g = 16 \<and>
           length (bombs_positions g) = 3 \<and> distinct (bombs_positions g) \<and>
           set (bombs_positions g) \<subseteq> {..<16} \<and>
           bombs_positions g = generate_bombs (\<lambda>_ _. ''00'') (server_seed g) (client_seed g)
                                 (nonce g) (total_cells g) (bombs g)"
  using start_game_valid [of 4 3 "''abc''" "\<lambda>_ _. ''00''"
      "\<lparr>env_fetch = FetchFailed, env_now_ms = 0, env_now_iso = ''t'', env_uuid = ''g''\<rparr>"
      "(True, Num 1)" "[]"]
  by simp

text \<open>C17 (scenario C of the specification): revealing a bomb of a running game succeeds
  with \<open>isBomb = true\<close> and multiplier 0, and leaves the game finished and lost with the
  bomb as its last opened cell.\<close>

theorem reveal_bomb_ends_game:
  assumes "lookup_game h gid = Some (p, g)" and "\<not> finished g" and "idx < total_cells g"
    and "idx \<notin> set (opened g)" and "idx \<in> set (bombs_positions g)"
  shows "\<exists>r h'. reveal_cell h gid (Num (of_nat idx)) = Inr (r, h') \<and> is_bomb r \<and>
           multiplier r = Num 0 \<and> finished (resp_game r) \<and> result (resp_game r) = Lost \<and>
           last (opened (resp_game r)) = idx \<and> h' = h[p := resp_game r]"
  using reveal_cell_bomb [OF assms] by simp

theorem reveal_bomb_ends_game_witness:
  "\<exists>r h'. reveal_cell [\<lparr>game_id = ''g'', created_at = '''', size = 2, bombs = Num 1,
       total_cells = 4, client_seed = ''c'', server_seed = ''s'', nonce = 1, bet = Num 0,
       bombs_positions = [0], opened = [], finished = False, result = NoResult,
       payout_multiplier = None\<rparr>] ''g'' (Num (of_nat 0)) = Inr (r, h') \<and> is_bomb r \<and>
     multiplier r = Num 0 \<and> finished (resp_game r) \<and> result (resp_game r) = Lost \<and>
     last (opened (resp_game r)) = 0 \<and>
     h' = [\<lparr>game_id = ''g'', created_at = '''', size = 2, bombs = Num 1,
       total_cells = 4, client_seed = ''c'', server_seed = ''s'', nonce = 1, bet = Num 0,
       bombs_positions = [0], opened = [], finished = False, result = NoResult,
       payout_multiplier = None\<rparr>][0 := resp_game r]"
proof -
  define g0 where "g0 = \<lparr>game_id = ''g'', created_at = '''', size = 2, bombs = Num 1,
       total_cells = 4, client_seed = ''c'', server_seed = ''s'', nonce = 1, bet = Num 0,
       bombs_positions = [0], opened = [], finished = False, result = NoResult,
       payout_multiplier = None\<rparr>"
  have "lookup_game [g0] ''g'' = Some (0, g0)"
    by (simp add: g0_def lookup_game_def)
  from reveal_bomb_ends_game [OF this, of 0] show ?thesis
    by (simp add: g0_def)
qed

text \<open>C18: revealing a safe cell of a running game succeeds with \<open>isBomb = false\<close>,
  appends the cell, keeps the game running, and reports
  \<open>computeMultiplier(totalCells, bombs, |opened| + 1)\<close>.\<close>

theorem reveal_safe_cell:
  assumes "lookup_game h gid = Some (p, g)" and "\<not> finished g" and "idx < total_cells g"
    and "idx \<notin> set (opened g)" and "idx \<notin> set (bombs_positions g)"
  shows "\<exists>r h'. reveal_cell h gid (Num (of_nat idx)) = Inr (r, h') \<and> \<not> is_bomb r \<and>
           resp_opened r = opened g @ [idx] \<and> \<not> finished (resp_game r) \<and>
           multiplier r = compute_multiplier (total_cells g) (bombs g) (Suc (length (opened g))) \<and>
           h' = h[p := resp_game r]"
  using reveal_cell_safe [OF assms] assms(2) by simp

theorem reveal_safe_cell_witness:
  "\<exists>r h'. reveal_cell [\<lparr>game_id = ''g'', created_at = '''', size = 2, bombs = Num 1,
       total_cells = 4, client_seed = ''c'', server_seed = ''s'', nonce = 1, bet = Num 0,
       bombs_positions = [0], opened = [], finished = False, result = NoResult,
       payout_multiplier = None\<rparr>] ''g'' (Num (of_nat 3)) = Inr (r, h') \<and> \<not> is_bomb r \<and>
     resp_opened r = [3] \<and> \<not> finished (resp_game r) \<and>
     multiplier r = compute_multiplier 4 (Num 1) 1 \<and>
     h' = [\<lparr>game_id = ''g'', created_at = '''', size = 2, bombs = Num 1,
       total_cells = 4, client_seed = ''c'', server_seed = ''s'', nonce = 1, bet = Num 0,
       bombs_positions = [0], opened = [], finished = False, result = NoResult,
       payout_multiplier = None\<rparr>][0 := resp_game r]"
proof -
  define g0 where "g0 = \<lparr>game_id = ''g'', created_at = '''', size = 2, bombs = Num 1,
       total_cells = 4, client_seed = ''c'', server_seed = ''s'', nonce = 1, bet = Num 0,
       bombs_positions = [0], opened = [], finished = False, result = NoResult,
       payout_multiplier = None\<rparr>"
  have "lookup_game [g0] ''g'' = Some (0, g0)"
    by (simp add: g0_def lookup_game_def)
  from reveal_safe_cell [OF this, of 3] show ?thesis
    by (simp add: g0_def)
qed

text \<open>C19: \<open>/api/history\<close> answers the last 200 games at most, most recent first.\<close>

theorem history_summary_recent_first:
  "length (history_summary h) = min 200 (length h) \<and>
   (\<forall>i < length (history_summary h).
      history_summary h ! i = summarize (h ! (length h - 1 - i)))"
proof -
  have len: "length (history_summary h) = min 200 (length h)"
    by (simp add: history_summary_def)
  moreover have "history_summary h ! i = summarize (h ! (length h - 1 - i))"
    if i: "i < length (history_summary h)" for i
  proof -
    let ?d = "drop (length h - 200) h"
    have il: "i < length ?d" using i by (simp add: history_summary_def)
    have "history_summary h ! i = summarize (?d ! (length ?d - Suc i))"
      using il by (simp add: history_summary_def rev_nth)
    also have "?d ! (length ?d - Suc i) = h ! (length h - 1 - i)"
      using il by (simp add: nth_drop)
    finally show ?thesis .
  qed
  ultimately show ?thesis by blast
qed

text \<open>The fallback server seed cannot collide with a seed derived from a genuine
  block id: a block id made of hexadecimal digits (as TronGrid's are) gives a seed of
  hexadecimal digits, while every fallback seed contains the letter \<open>l\<close>.\<close>

theorem fallback_seed_distinct:
  assumes "b \<noteq> []" and "\<forall>c \<in> set b. hex_digit c \<noteq> None"
    and "fetch_trx_block_id r = None"
  shows "derive_server_seed (fetch_trx_block_id (FetchAnswer (Some b))) t \<noteq>
         derive_server_seed (fetch_trx_block_id r) t'"
proof -
  have l: "CHR ''l'' \<in> set (derive_server_seed None t')"
    by (simp add: derive_server_seed_def del: nat_to_string.simps)
  have "CHR ''l'' \<notin> set (b @ ''2'')"
    using assms(2) by (auto simp: hex_digit_def)
  then have ne: "b @ ''2'' \<noteq> derive_server_seed None t'"
    using l by metis
  have "derive_server_seed (fetch_trx_block_id (FetchAnswer (Some b))) t = b @ ''2''"
    using assms(1) by (simp add: fetch_trx_block_id_def derive_server_seed_def)
  then show ?thesis
    using ne assms(3) by simp
qed

theorem fallback_seed_distinct_witness:
  "derive_server_seed (fetch_trx_block_id (FetchAnswer (Some ''0a1f''))) 7 \<noteq>
   derive_server_seed (fetch_trx_block_id FetchFailed) 7"
  by (rule fallback_seed_distinct) (simp_all add: hex_digit_def fetch_trx_block_id_def)

theorem history_summary_recent_first_witness:
  "length (history_summary [\<lparr>game_id = ''a'', created_at = '''', size = 2, bombs = Num 1,
       total_cells = 4, client_seed = ''c'', server_seed = ''s'', nonce = 1, bet = Num 0,
       bombs_positions = [0], opened = [], finished = False, result = NoResult,
       payout_multiplier = None\<rparr>, \<lparr>game_id = ''b'', created_at = '''', size = 2,
       bombs = Num 1, total_cells = 4, client_seed = ''c'', server_seed = ''s'', nonce = 2,
       bet = Num 0, bombs_positions = [3], opened = [], finished = False, result = NoResult,
       payout_multiplier = None\<rparr>]) = 2 \<and>
   sum_id (history_summary [\<lparr>game_id = ''a'', created_at = '''', size = 2, bombs = Num 1,
       total_cells = 4, client_seed = ''c'', server_seed = ''s'', nonce = 1, bet = Num 0,
       bombs_positions = [0], opened = [], finished = False, result = NoResult,
       payout_multiplier = None\<rparr>, \<lparr>game_id = ''b'', created_at = '''', size = 2,
       bombs = Num 1, total_cells = 4, client_seed = ''c'', server_seed = ''s'', nonce = 2,
       bet = Num 0, bombs_positions = [3], opened = [], finished = False, result = NoResult,
       payout_multiplier = None\<rparr>] ! 0) = ''b''"
  using history_summary_recent_first [of "[\<lparr>game_id = ''a'', created_at = '''', size = 2,
       bombs = Num 1, total_cells = 4, client_seed = ''c'', server_seed = ''s'', nonce = 1,
       bet = Num 0, bombs_positions = [0], opened = [], finished = False, result = NoResult,
       payout_multiplier = None\<rparr>, \<lparr>game_id = ''b'', created_at = '''', size = 2,
       bombs = Num 1, total_cells = 4, client_seed = ''c'', server_seed = ''s'', nonce = 2,
       bet = Num 0, bombs_positions = [3], opened = [], finished = False, result = NoResult,
       payout_multiplier = None\<rparr>]"]
  by (simp add: summarize_def)




end
