(* ===== verification/Invariants.thy ===== *)
theory Invariants
  imports Game
begin

text \<open>
  What the handlers of theory \<open>Game\<close> keep true of the history. \<open>game_inv\<close> is the
  well-formedness of one game object as the code maintains it (grid size, layout inside
  the grid and duplicate-free, opened cells inside the grid and duplicate-free, the
  \<open>finished\<close>/\<open>result\<close>/\<open>payoutMultiplier\<close> agreement, and no bomb among the opened
  cells except the last one of a lost game); \<open>audit_ok\<close> says that the stored layout is
  the one \<open>generateBombs\<close> recomputes from the game's disclosed fields; \<open>store_inv\<close>
  adds that the nonces are \<open>1, 2, ..., n\<close> in push order. \<open>reachable\<close> is the set of
  histories the three mutating handlers produce from the empty history, in any order
  and with any inputs; the invariant holds on all of them by rule induction.
\<close>

section \<open>Definitions\<close>

definition game_inv :: "game \<Rightarrow> bool" where
  "game_inv g \<longleftrightarrow>
     0 < size g \<and> total_cells g = size g * size g \<and>
     distinct (bombs_positions g) \<and> sorted (bombs_positions g) \<and>
     set (bombs_positions g) \<subseteq> {..<total_cells g} \<and>
     distinct (opened g) \<and> set (opened g) \<subseteq> {..<total_cells g} \<and>
     (finished g \<longleftrightarrow> result g \<noteq> NoResult) \<and>
     payout_multiplier g =
       (if result g = Cashed
        then Some (compute_multiplier (total_cells g) (bombs g) (length (opened g))) else None) \<and>
     (if result g = Lost
      then opened g \<noteq> [] \<and> last (opened g) \<in> set (bombs_positions g) \<and>
           set (butlast (opened g)) \<inter> set (bombs_positions g) = {}
      else set (opened g) \<inter> set (bombs_positions g) = {})"

definition audit_ok :: "hmac_sha512_hex \<Rightarrow> game \<Rightarrow> bool" where
  "audit_ok hmac g \<longleftrightarrow>
     bombs_positions g =
       generate_bombs hmac (server_seed g) (client_seed g) (nonce g) (total_cells g) (bombs g)"

definition store_inv :: "hmac_sha512_hex \<Rightarrow> history \<Rightarrow> bool" where
  "store_inv hmac h \<longleftrightarrow>
     list_all (\<lambda>g. game_inv g \<and> audit_ok hmac g) h \<and> map nonce h = [1..<Suc (length h)]"

inductive reachable :: "hmac_sha512_hex \<Rightarrow> history \<Rightarrow> bool" for hmac where
  empty: "reachable hmac []"
| start: "reachable hmac h \<Longrightarrow> start_game hmac env req h = Inr (r, h') \<Longrightarrow> reachable hmac h'"
| reveal: "reachable hmac h \<Longrightarrow> reveal_cell h gid x = Inr (rr, h') \<Longrightarrow> reachable hmac h'"
| cash: "reachable hmac h \<Longrightarrow> cashout h gid = Inr (c, h') \<Longrightarrow> reachable hmac h'"

section \<open>Lemmas\<close>

subsection \<open>One game\<close>

lemma game_inv_start:
  assumes "start_game hmac env req h = Inr (r, h @ [g])"
  shows "game_inv g \<and> audit_ok hmac g \<and> nonce g = Suc (length h)"
proof -
  obtain g' where "h @ [g] = h @ [g']" and props: "nonce g' = length h + 1 \<and> opened g' = [] \<and>
      \<not> finished g' \<and> result g' = NoResult \<and> payout_multiplier g' = None \<and> 0 < size g' \<and>
      total_cells g' = size g' * size g' \<and>
      bombs_positions g' = generate_bombs hmac (server_seed g') (client_seed g') (nonce g')
                             (total_cells g') (bombs g')"
    using start_game_Inr [OF assms] by blast
  then have "g = g'" by simp
  with props show ?thesis
    by (simp add: game_inv_def audit_ok_def distinct_generate_bombs sorted_generate_bombs
        set_generate_bombs)
qed

lemma game_inv_reveal_safe:
  assumes "game_inv g" and "\<not> finished g" and "idx < total_cells g"
    and "idx \<notin> set (opened g)" and "idx \<notin> set (bombs_positions g)"
  shows "game_inv (g\<lparr>opened := opened g @ [idx]\<rparr>)"
  using assms by (auto simp: game_inv_def)

lemma game_inv_reveal_bomb:
  assumes "game_inv g" and "\<not> finished g" and "idx < total_cells g"
    and "idx \<notin> set (opened g)" and "idx \<in> set (bombs_positions g)"
  shows "game_inv (g\<lparr>opened := opened g @ [idx], finished := True, result := Lost\<rparr>)"
  using assms by (auto simp: game_inv_def)

lemma game_inv_cashout:
  assumes "game_inv g" and "\<not> finished g"
  shows "game_inv (g\<lparr>finished := True, result := Cashed,
           payout_multiplier := Some (compute_multiplier (total_cells g) (bombs g) (length (opened g)))\<rparr>)"
  using assms by (auto simp: game_inv_def)

lemma game_inv_opened_bound:
  assumes "game_inv g" and "result g \<noteq> Lost"
  shows "length (opened g) + length (bombs_positions g) \<le> total_cells g"
proof -
  have d: "distinct (opened g)" "distinct (bombs_positions g)"
    and sub: "set (opened g) \<union> set (bombs_positions g) \<subseteq> {..<total_cells g}"
    and disj: "set (opened g) \<inter> set (bombs_positions g) = {}"
    using assms by (auto simp: game_inv_def)
  have "length (opened g) + length (bombs_positions g) = card (set (opened g) \<union> set (bombs_positions g))"
    using d disj by (simp add: card_Un_disjoint distinct_card)
  also have "\<dots> \<le> card {..<total_cells g}"
    using sub by (intro card_mono) simp_all
  finally show ?thesis by simp
qed

subsection \<open>The history\<close>

lemma store_inv_update:
  assumes "store_inv hmac h" and "lookup_game h gid = Some (p, g)"
    and "game_inv g'" and "audit_ok hmac g'" and "nonce g' = nonce g"
  shows "store_inv hmac (h[p := g'])"
proof -
  have p: "p < length h" and g: "h ! p = g"
    using assms(2) by (simp_all add: lookup_game_iff)
  have "list_all (\<lambda>g. game_inv g \<and> audit_ok hmac g) (h[p := g'])"
    using assms(1,3,4) by (auto simp: store_inv_def list_all_iff dest: set_update_subset_insert [THEN subsetD])
  moreover have "map nonce (h[p := g']) = map nonce h"
    using p g assms(5) by (metis list_update_id map_update nth_map)
  ultimately show ?thesis
    using assms(1) by (simp add: store_inv_def)
qed

lemma store_inv_lookup:
  "store_inv hmac h \<Longrightarrow> lookup_game h gid = Some (p, g) \<Longrightarrow> game_inv g \<and> audit_ok hmac g"
  by (auto simp: store_inv_def list_all_iff dest: lookup_game_in_set)

lemma store_inv_start:
  assumes "store_inv hmac h" and "start_game hmac env req h = Inr (r, h')"
  shows "store_inv hmac h'"
proof -
  obtain g where h': "h' = h @ [g]"
    using start_game_Inr [OF assms(2)] by blast
  then have "game_inv g \<and> audit_ok hmac g \<and> nonce g = Suc (length h)"
    using assms(2) game_inv_start by blast
  then show ?thesis
    using assms(1) h' by (simp add: store_inv_def)
qed

lemma store_inv_reveal:
  assumes "store_inv hmac h" and "reveal_cell h gid x = Inr (rr, h')"
  shows "store_inv hmac h'"
proof -
  obtain p g idx where l: "lookup_game h gid = Some (p, g)" and nf: "\<not> finished g"
    and x: "x = Num (of_nat idx)" and lt: "idx < total_cells g" and no: "idx \<notin> set (opened g)"
    using reveal_cell_Inr [OF assms(2)] by blast
  have inv: "game_inv g" and au: "audit_ok hmac g"
    using store_inv_lookup [OF assms(1) l] by simp_all
  show ?thesis
  proof (cases "idx \<in> set (bombs_positions g)")
    case True
    have "store_inv hmac (h[p := g\<lparr>opened := opened g @ [idx], finished := True, result := Lost\<rparr>])"
      using inv au nf lt no True
      by (intro store_inv_update [OF assms(1) l] game_inv_reveal_bomb) (simp_all add: audit_ok_def)
    then show ?thesis
      using assms(2) x reveal_cell_bomb [OF l nf lt no True] by simp
  next
    case False
    have "store_inv hmac (h[p := g\<lparr>opened := opened g @ [idx]\<rparr>])"
      using inv au nf lt no False
      by (intro store_inv_update [OF assms(1) l] game_inv_reveal_safe) (simp_all add: audit_ok_def)
    then show ?thesis
      using assms(2) x reveal_cell_safe [OF l nf lt no False] by simp
  qed
qed

lemma store_inv_cashout:
  assumes "store_inv hmac h" and "cashout h gid = Inr (c, h')"
  shows "store_inv hmac h'"
proof -
  obtain p g where l: "lookup_game h gid = Some (p, g)" and nf: "\<not> finished g"
    using cashout_Inr [OF assms(2)] by blast
  have inv: "game_inv g" and au: "audit_ok hmac g"
    using store_inv_lookup [OF assms(1) l] by simp_all
  have "store_inv hmac (h[p := g\<lparr>finished := True, result := Cashed,
           payout_multiplier := Some (compute_multiplier (total_cells g) (bombs g) (length (opened g)))\<rparr>])"
    using inv au nf
    by (intro store_inv_update [OF assms(1) l] game_inv_cashout) (simp_all add: audit_ok_def)
  then show ?thesis
    using assms(2) cashout_active [OF l nf] by simp
qed

lemma reachable_store_inv: "reachable hmac h \<Longrightarrow> store_inv hmac h"
proof (induction rule: reachable.induct)
  case empty
  then show ?case by (simp add: store_inv_def)
next
  case (start h env req r h')
  then show ?case by (blast intro: store_inv_start)
next
  case (reveal h gid x rr h')
  then show ?case by (blast intro: store_inv_reveal)
next
  case (cash h gid c h')
  then show ?case by (blast intro: store_inv_cashout)
qed

subsection \<open>Properties of every reachable history\<close>

text \<open>A reachable history with one game, for the witnesses below.\<close>

lemma reachable_one_game:
  "reachable (\<lambda>_ _. ''00'')
     [\<lparr>game_id = ''g'', created_at = ''t'', size = 2, bombs = Num 1, total_cells = 4,
       client_seed = ''abc'', server_seed = ''b2'', nonce = 1, bet = Num 1,
       bombs_positions = generate_bombs (\<lambda>_ _. ''00'') ''b2'' ''abc'' 1 4 (Num 1),
       opened = [], finished = False, result = NoResult, payout_multiplier = None\<rparr>]"
proof (rule reachable.start [OF reachable.empty])
  show "start_game (\<lambda>_ _. ''00'')
          \<lparr>env_fetch = FetchAnswer (Some ''b''), env_now_ms = 0, env_now_iso = ''t'', env_uuid = ''g''\<rparr>
          \<lparr>req_size = (True, Num 2), req_bombs = (True, Num 1), req_client_seed = Some ''abc'',
           req_bet = (True, Num 1)\<rparr> []
        = Inr (\<lparr>started_id = ''g'', server_seed_public = ''b2'', started_nonce = 1\<rparr>,
           [\<lparr>game_id = ''g'', created_at = ''t'', size = 2, bombs = Num 1, total_cells = 4,
             client_seed = ''abc'', server_seed = ''b2'', nonce = 1, bet = Num 1,
             bombs_positions = generate_bombs (\<lambda>_ _. ''00'') ''b2'' ''abc'' 1 4 (Num 1),
             opened = [], finished = False, result = NoResult, payout_multiplier = None\<rparr>])"
    by (simp add: start_game_def Let_def client_seed_missing_def js_nat_def fetch_trx_block_id_def
        derive_server_seed_def)
qed

text \<open>C1: every game of every reachable history is well formed: a square grid, a
  duplicate-free sorted layout inside the grid, duplicate-free opened cells inside the
  grid, \<open>finished\<close> exactly when there is a result, a payout multiplier exactly for a
  cashed game (the one computed from its opened cells), and no bomb among the opened
  cells except the last one of a lost game.\<close>

theorem reachable_game_inv:
  assumes "reachable hmac h" and "g \<in> set h"
  shows "game_inv g"
  using reachable_store_inv [OF assms(1)] assms(2) by (simp add: store_inv_def list_all_iff)

theorem reachable_game_inv_witness:
  "game_inv \<lparr>game_id = ''g'', created_at = ''t'', size = 2, bombs = Num 1, total_cells = 4,
       client_seed = ''abc'', server_seed = ''b2'', nonce = 1, bet = Num 1,
       bombs_positions = generate_bombs (\<lambda>_ _. ''00'') ''b2'' ''abc'' 1 4 (Num 1),
       opened = [], finished = False, result = NoResult, payout_multiplier = None\<rparr>"
  by (rule reachable_game_inv [OF reachable_one_game]) simp

text \<open>C7: in a game that is not lost, the opened cells and the bombs are disjoint sets of
  cells of the grid, so no more cells can have been opened than there are safe cells:
  \<open>|opened| \<le> totalCells - |bombsPositions|\<close>.\<close>

theorem reachable_opened_bound:
  assumes "reachable hmac h" and "g \<in> set h" and "result g \<noteq> Lost"
  shows "length (opened g) + length (bombs_positions g) \<le> total_cells g"
proof -
  have "game_inv g"
    using reachable_store_inv [OF assms(1)] assms(2) by (simp add: store_inv_def list_all_iff)
  then show ?thesis
    using assms(3) by (rule game_inv_opened_bound)
qed

theorem reachable_opened_bound_witness:
  "length (opened \<lparr>game_id = ''g'', created_at = ''t'', size = 2, bombs = Num 1, total_cells = 4,
       client_seed = ''abc'', server_seed = ''b2'', nonce = 1, bet = Num 1,
       bombs_positions = generate_bombs (\<lambda>_ _. ''00'') ''b2'' ''abc'' 1 4 (Num 1),
       opened = [], finished = False, result = NoResult, payout_multiplier = None\<rparr>) +
   length (generate_bombs (\<lambda>_ _. ''00'') ''b2'' ''abc'' 1 4 (Num 1)) \<le> 4"
  using reachable_opened_bound [OF reachable_one_game] by simp

text \<open>C8: the nonces of a reachable history are \<open>1, 2, ..., n\<close> in push order, so they
  strictly increase and no two games share one.\<close>

theorem reachable_nonces:
  assumes "reachable hmac h"
  shows "map nonce h = [1..<Suc (length h)]"
  using reachable_store_inv [OF assms] by (simp add: store_inv_def)

theorem reachable_nonces_witness:
  "map nonce [\<lparr>game_id = ''g'', created_at = ''t'', size = 2, bombs = Num 1, total_cells = 4,
       client_seed = ''abc'', server_seed = ''b2'', nonce = 1, bet = Num 1,
       bombs_positions = generate_bombs (\<lambda>_ _. ''00'') ''b2'' ''abc'' 1 4 (Num 1),
       opened = [], finished = False, result = NoResult, payout_multiplier = None\<rparr>] = [1..<Suc 1]"
  using reachable_nonces [OF reachable_one_game] by simp

end
