(* ===== verification/Client.thy ===== *)
theory Client
  imports Invariants
begin

text \<open>
  The reveal queue of the browser client \<open>src/public/app.js\<close>: \<open>enqueueReveal\<close>
  (lines 73--78) adds a cell index to \<open>state.pendingQueue\<close> unless it is already opened
  or pending; \<open>processQueue\<close> (80--92) takes the indices out one at a time and awaits
  \<open>revealSingle\<close> (94--111) for each, so the server sees the reveal requests strictly in
  queue order. On an error answer \<open>revealSingle\<close> alerts and returns, and the loop goes
  on with the next index; on success it replaces \<open>state.opened\<close> by the answer's
  \<open>opened\<close>. The model of \<open>processQueue\<close> runs the queue against the server model
  (\<open>reveal_cell\<close>) and returns the new history and the client's opened list, one
  recursive call per iteration of the \<open>while\<close> loop (each removes the first index, so the
  recursion is structural on the queue). \<open>auto_fast_round\<close> is a round of auto mode
  \<open>fast\<close> (\<open>startAuto\<close>, 199--240) with every cell enqueued before the queue runs; the
  rounds whose enqueues and answers interleave (mode \<open>enjoy\<close>, and the wait of line 227)
  are the step relation of theory \<open>ClientAuto\<close>. Timers, spinner and DOM are in theories
  \<open>ClientAuto\<close> and \<open>ClientView\<close>; network failures are not modelled.
\<close>

section \<open>Definitions\<close>

record client_state =
  c_opened :: "nat list"
  c_pending :: "nat list"

definition enqueue_reveal :: "'a client_state_scheme \<Rightarrow> nat \<Rightarrow> 'a client_state_scheme" where
  "enqueue_reveal st index =
     (if index \<in> set (c_opened st) \<or> index \<in> set (c_pending st) then st
      else st\<lparr>c_pending := c_pending st @ [index]\<rparr>)"

fun process_queue :: "string \<Rightarrow> history \<times> nat list \<Rightarrow> nat list \<Rightarrow> history \<times> nat list" where
  "process_queue gid (h, opn) [] = (h, opn)"
| "process_queue gid (h, opn) (idx # queue) =
     (case reveal_cell h gid (Num (of_nat idx)) of
        Inl _ \<Rightarrow> process_queue gid (h, opn) queue
      | Inr (r, h') \<Rightarrow> process_queue gid (h', resp_opened r) queue)"

text \<open>Auto mode \<open>fast\<close> (\<open>startAuto\<close>, lines 210--227): the cells of the grid that the
  client does not know to be opened, in ascending order (lines 210--212), are all enqueued
  at once (line 224) and the round waits until the queue is empty (line 227). The first
  \<open>enqueueReveal\<close> starts \<open>processQueue\<close>, which takes the indices out in queue order,
  so the round is \<open>processQueue\<close> run on the enqueued list.\<close>

definition auto_targets :: "nat \<Rightarrow> nat list \<Rightarrow> nat list" where
  "auto_targets cells opn = filter (\<lambda>i. i \<notin> set opn) [0..<cells]"

definition auto_fast_round ::
  "string \<Rightarrow> history \<Rightarrow> 'a client_state_scheme \<Rightarrow> nat \<Rightarrow> history \<times> nat list" where
  "auto_fast_round gid h st cells =
     (let st' = foldl enqueue_reveal st (auto_targets cells (c_opened st))
      in process_queue gid (h, c_opened st') (c_pending st'))"

section \<open>Lemmas\<close>

text \<open>Revealing distinct safe cells of a running game one after the other: every request
  succeeds, and the game ends up with those cells appended to its opened list.\<close>

lemma process_queue_safe:
  assumes "lookup_game h gid = Some (p, g)" and "\<not> finished g" and "distinct cells"
    and "set cells \<subseteq> {..<total_cells g}"
    and "set cells \<inter> (set (opened g) \<union> set (bombs_positions g)) = {}"
  shows "fst (process_queue gid (h, opn) cells) = h[p := g\<lparr>opened := opened g @ cells\<rparr>] \<and>
         lookup_game (fst (process_queue gid (h, opn) cells)) gid =
           Some (p, g\<lparr>opened := opened g @ cells\<rparr>)"
  using assms
proof (induction cells arbitrary: h g opn)
  case Nil
  have "h[p := g] = h"
    using Nil.prems(1) by (metis lookup_game_iff list_update_id)
  then show ?case
    using Nil.prems(1) by simp
next
  case (Cons c cells)
  let ?g1 = "g\<lparr>opened := opened g @ [c]\<rparr>"
  have c: "c < total_cells g" "c \<notin> set (opened g)" "c \<notin> set (bombs_positions g)"
    using Cons.prems by auto
  have rv: "reveal_cell h gid (Num (of_nat c)) =
      Inr (\<lparr>is_bomb = False, resp_opened = opened g @ [c],
             multiplier = compute_multiplier (total_cells g) (bombs g) (Suc (length (opened g))),
             resp_game = ?g1\<rparr>, h[p := ?g1])"
    by (rule reveal_cell_safe [OF Cons.prems(1,2) c])
  have gid: "game_id g = gid"
    using Cons.prems(1) by (simp add: lookup_game_iff)
  have l1: "lookup_game (h[p := ?g1]) gid = Some (p, ?g1)"
    using lookup_game_update [OF Cons.prems(1)] gid by simp
  have ih: "fst (process_queue gid (h[p := ?g1], opened g @ [c]) cells) =
              (h[p := ?g1])[p := ?g1\<lparr>opened := opened ?g1 @ cells\<rparr>] \<and>
            lookup_game (fst (process_queue gid (h[p := ?g1], opened g @ [c]) cells)) gid =
              Some (p, ?g1\<lparr>opened := opened ?g1 @ cells\<rparr>)"
    using Cons.prems(2-5) by (intro Cons.IH [OF l1]) auto
  have eq: "process_queue gid (h, opn) (c # cells) =
      process_queue gid (h[p := ?g1], opened g @ [c]) cells"
    using rv by simp
  have g: "?g1\<lparr>opened := opened ?g1 @ cells\<rparr> = g\<lparr>opened := opened g @ c # cells\<rparr>"
    by simp
  have hh: "(h[p := ?g1])[p := g\<lparr>opened := opened g @ c # cells\<rparr>] =
      h[p := g\<lparr>opened := opened g @ c # cells\<rparr>]"
    by simp
  from ih [unfolded g hh] show ?case
    unfolding eq .
qed

text \<open>The safe cells of a game that are not opened yet: as many as the grid has cells,
  minus the bombs, minus the opened cells.\<close>

lemma card_remaining_safe:
  assumes "game_inv g" and "result g \<noteq> Lost"
  shows "card ({..<total_cells g} - set (bombs_positions g) - set (opened g)) =
           total_cells g - length (bombs_positions g) - length (opened g)"
proof -
  have sb: "set (bombs_positions g) \<subseteq> {..<total_cells g}"
    and so: "set (opened g) \<subseteq> {..<total_cells g} - set (bombs_positions g)"
    and db: "distinct (bombs_positions g)" and dopn: "distinct (opened g)"
    using assms by (auto simp: game_inv_def)
  have "card ({..<total_cells g} - set (bombs_positions g)) = total_cells g - length (bombs_positions g)"
    using sb db by (simp add: card_Diff_subset distinct_card)
  then show ?thesis
    using so dopn by (simp add: card_Diff_subset distinct_card finite_subset)
qed

lemma process_queue_append:
  "process_queue gid (h, opn) (xs @ ys) = process_queue gid (process_queue gid (h, opn) xs) ys"
proof (induction xs arbitrary: h opn)
  case Nil
  then show ?case by simp
next
  case (Cons x xs)
  then show ?case by (simp split: sum.split prod.split)
qed

lemma process_queue_finished:
  assumes "lookup_game h gid = Some (p, g)" and "finished g"
  shows "process_queue gid (h, opn) xs = (h, opn)"
  by (induction xs) (simp_all add: reveal_cell_errors(2) [OF assms])

lemma enqueue_reveal_fresh:
  assumes "distinct xs" and "set xs \<inter> (set (c_opened st) \<union> set (c_pending st)) = {}"
  shows "foldl enqueue_reveal st xs = st\<lparr>c_pending := c_pending st @ xs\<rparr>"
  using assms
proof (induction xs arbitrary: st)
  case Nil
  then show ?case by simp
next
  case (Cons x xs)
  have "enqueue_reveal st x = st\<lparr>c_pending := c_pending st @ [x]\<rparr>"
    using Cons.prems by (simp add: enqueue_reveal_def)
  then show ?case
    using Cons.prems Cons.IH [of "st\<lparr>c_pending := c_pending st @ [x]\<rparr>"] by auto
qed

lemma sorted_hd_min:
  "sorted xs \<Longrightarrow> xs \<noteq> [] \<Longrightarrow> i < hd xs \<Longrightarrow> i \<notin> set xs"
  by (cases xs) auto

text \<open>A successful reveal writes the answered game back at its position, and the answer's
  \<open>opened\<close> is that game's list.\<close>

lemma reveal_cell_Inr_update:
  assumes "reveal_cell h gid x = Inr (r, h')" and "lookup_game h gid = Some (p, g)"
  shows "h' = h[p := resp_game r] \<and> resp_opened r = opened (resp_game r) \<and>
         lookup_game h' gid = Some (p, resp_game r)"
proof -
  have gid: "game_id g = gid"
    using assms(2) by (simp add: lookup_game_iff)
  have "h' = h[p := resp_game r] \<and> resp_opened r = opened (resp_game r) \<and>
        game_id (resp_game r) = game_id g"
    using assms by (auto simp: reveal_cell_def Let_def split: if_splits)
  then show ?thesis
    using lookup_game_update [OF assms(2)] gid by simp
qed

text \<open>\<open>enqueueReveal\<close> keeps the pending queue free of duplicates and of cells the
  client knows to be opened, for any sequence of clicks.\<close>

theorem enqueue_reveal_inv:
  assumes "distinct (c_pending st)" and "set (c_pending st) \<inter> set (c_opened st) = {}"
  shows "distinct (c_pending (foldl enqueue_reveal st clicks)) \<and>
         set (c_pending (foldl enqueue_reveal st clicks)) \<inter>
           set (c_opened (foldl enqueue_reveal st clicks)) = {}"
  using assms
proof (induction clicks arbitrary: st)
  case Nil
  then show ?case by simp
next
  case (Cons i clicks)
  have "distinct (c_pending (enqueue_reveal st i)) \<and>
        set (c_pending (enqueue_reveal st i)) \<inter> set (c_opened (enqueue_reveal st i)) = {}"
    using Cons.prems by (auto simp: enqueue_reveal_def)
  then show ?case
    using Cons.IH by simp
qed

theorem enqueue_reveal_inv_witness:
  "distinct (c_pending (foldl enqueue_reveal \<lparr>c_opened = [1], c_pending = []\<rparr> [2, 1, 2, 3])) \<and>
   set (c_pending (foldl enqueue_reveal \<lparr>c_opened = [1], c_pending = []\<rparr> [2, 1, 2, 3])) \<inter>
     set (c_opened (foldl enqueue_reveal \<lparr>c_opened = [1], c_pending = []\<rparr> [2, 1, 2, 3])) = {}"
  by (rule enqueue_reveal_inv) simp_all

text \<open>On a fresh game, revealing \<open>0, 1, ...\<close> in order opens every cell below the lowest
  bomb, then the bomb, and everything after it is refused.\<close>

lemma process_queue_upto_lowest_bomb:
  assumes lk: "lookup_game h gid = Some (p, g)" and nf: "\<not> finished g" and op: "opened g = []"
    and inv: "game_inv g" and ne: "bombs_positions g \<noteq> []"
  shows "process_queue gid (h, opn) [0..<total_cells g] =
           (h[p := g\<lparr>opened := [0..<Suc (hd (bombs_positions g))], finished := True,
                     result := Lost\<rparr>], [0..<Suc (hd (bombs_positions g))])"
proof -
  let ?b = "hd (bombs_positions g)"
  let ?n = "total_cells g"
  let ?g1 = "g\<lparr>opened := [0..<?b]\<rparr>"
  let ?g2 = "?g1\<lparr>opened := [0..<?b] @ [?b], finished := True, result := Lost\<rparr>"
  have bl: "?b < ?n"
    using inv hd_in_set [OF ne] by (auto simp: game_inv_def)
  have split: "[0..<?n] = [0..<?b] @ ?b # [Suc ?b..<?n]"
  proof -
    have "[0..<?b + (?n - ?b)] = [0..<?b] @ [?b..<?b + (?n - ?b)]"
      by (rule upt_add_eq_append) simp
    then show ?thesis
      using bl by (simp add: upt_conv_Cons)
  qed
  have sorted: "sorted (bombs_positions g)"
    using inv by (simp add: game_inv_def)
  have fresh: "set [0..<?b] \<inter> (set (opened g) \<union> set (bombs_positions g)) = {}"
    using sorted_hd_min [OF sorted ne] op by auto
  have safe: "fst (process_queue gid (h, opn) [0..<?b]) = h[p := ?g1] \<and>
              lookup_game (fst (process_queue gid (h, opn) [0..<?b])) gid = Some (p, ?g1)"
  proof -
    have sub: "set [0..<?b] \<subseteq> {..<?n}"
      using bl by auto
    show ?thesis
      using process_queue_safe [OF lk nf _ sub fresh, of opn] op by auto
  qed
  obtain o1 where q1: "process_queue gid (h, opn) [0..<?b] = (h[p := ?g1], o1)"
    using safe by (metis prod.collapse)
  have l1: "lookup_game (h[p := ?g1]) gid = Some (p, ?g1)"
    using safe q1 by simp
  have rv: "reveal_cell (h[p := ?g1]) gid (Num (of_nat ?b)) =
      Inr (\<lparr>is_bomb = True, resp_opened = [0..<?b] @ [?b], multiplier = Num 0,
             resp_game = ?g2\<rparr>, (h[p := ?g1])[p := ?g2])"
    using reveal_cell_bomb [OF l1] nf bl ne by simp
  have gid: "game_id g = gid"
    using lk by (simp add: lookup_game_iff)
  have l2: "lookup_game ((h[p := ?g1])[p := ?g2]) gid = Some (p, ?g2)"
    using lookup_game_update [OF l1] gid by simp
  have "process_queue gid (h, opn) [0..<?n] =
        process_queue gid ((h[p := ?g1])[p := ?g2], [0..<?b] @ [?b]) [Suc ?b..<?n]"
    by (simp add: split process_queue_append q1 rv)
  also have "\<dots> = ((h[p := ?g1])[p := ?g2], [0..<?b] @ [?b])"
    by (rule process_queue_finished [OF l2]) simp
  finally show ?thesis
    by simp
qed


text \<open>A round of auto mode \<open>fast\<close> on a fresh game reveals the cells
  \<open>0, 1, ...\<close> in order up to the lowest bomb and stops there: the game ends lost with
  exactly the cells \<open>[0..b]\<close> opened (\<open>b\<close> the lowest bomb), every later request is
  refused, and the client's opened list agrees. Auto mode never cashes out.\<close>

theorem auto_fast_round_loses:
  assumes lk: "lookup_game h gid = Some (p, g)" and nf: "\<not> finished g" and op: "opened g = []"
    and inv: "game_inv g" and ne: "bombs_positions g \<noteq> []"
    and st: "c_opened st = []" "c_pending st = []"
  shows "auto_fast_round gid h st (total_cells g) =
           (h[p := g\<lparr>opened := [0..<Suc (hd (bombs_positions g))], finished := True,
                     result := Lost\<rparr>], [0..<Suc (hd (bombs_positions g))])"
proof -
  have "auto_fast_round gid h st (total_cells g) = process_queue gid (h, []) [0..<total_cells g]"
    using st by (simp add: auto_fast_round_def auto_targets_def enqueue_reveal_fresh)
  then show ?thesis
    using process_queue_upto_lowest_bomb [OF lk nf op inv ne] by simp
qed

theorem auto_fast_round_loses_witness:
  "auto_fast_round ''g'' [\<lparr>game_id = ''g'', created_at = '''', size = 2, bombs = Num 1,
       total_cells = 4, client_seed = ''c'', server_seed = ''s'', nonce = 1, bet = Num 0,
       bombs_positions = [2], opened = [], finished = False, result = NoResult,
       payout_multiplier = None\<rparr>] \<lparr>c_opened = [], c_pending = []\<rparr> 4 =
   ([\<lparr>game_id = ''g'', created_at = '''', size = 2, bombs = Num 1,
       total_cells = 4, client_seed = ''c'', server_seed = ''s'', nonce = 1, bet = Num 0,
       bombs_positions = [2], opened = [0, 1, 2], finished = True, result = Lost,
       payout_multiplier = None\<rparr>], [0, 1, 2])"
proof -
  define g0 where "g0 = \<lparr>game_id = ''g'', created_at = '''', size = 2, bombs = Num 1,
       total_cells = 4, client_seed = ''c'', server_seed = ''s'', nonce = 1, bet = Num 0,
       bombs_positions = [2], opened = [], finished = False, result = NoResult,
       payout_multiplier = None\<rparr>"
  have "lookup_game [g0] ''g'' = Some (0, g0)"
    by (simp add: g0_def lookup_game_def)
  from auto_fast_round_loses [OF this, of "\<lparr>c_opened = [], c_pending = []\<rparr>"] show ?thesis
    by (simp add: g0_def game_inv_def upt_rec)
qed

text \<open>C23: whatever cells the client queues, in whatever order and with whatever
  refusals, after \<open>processQueue\<close> the client's \<open>state.opened\<close> is the opened list the
  server holds for the game: \<open>revealSingle\<close> copies the answer's \<open>opened\<close>, and a
  refused request changes neither side.\<close>

theorem process_queue_client_agrees:
  assumes "lookup_game h gid = Some (p, g)" and "opn = opened g"
  shows "\<exists>g'. lookup_game (fst (process_queue gid (h, opn) q)) gid = Some (p, g') \<and>
              snd (process_queue gid (h, opn) q) = opened g'"
  using assms
proof (induction q arbitrary: h g opn)
  case Nil
  then show ?case by auto
next
  case (Cons idx q)
  show ?case
  proof (cases "reveal_cell h gid (Num (of_nat idx))")
    case (Inl e)
    then show ?thesis
      using Cons.IH [OF Cons.prems] by simp
  next
    case (Inr rh)
    obtain r h' where rh: "rh = (r, h')" by (cases rh)
    have u: "h' = h[p := resp_game r] \<and> resp_opened r = opened (resp_game r) \<and>
             lookup_game h' gid = Some (p, resp_game r)"
      using reveal_cell_Inr_update [OF _ Cons.prems(1)] Inr rh by simp
    have ih: "\<exists>g'. lookup_game (fst (process_queue gid (h', resp_opened r) q)) gid = Some (p, g') \<and>
                   snd (process_queue gid (h', resp_opened r) q) = opened g'"
      using Cons.IH [of h' "resp_game r" "resp_opened r"] u by blast
    have "process_queue gid (h, opn) (idx # q) = process_queue gid (h', resp_opened r) q"
      using Inr rh by simp
    then show ?thesis
      using ih by simp
  qed
qed

theorem process_queue_client_agrees_witness:
  "\<exists>g'. lookup_game (fst (process_queue ''g'' ([\<lparr>game_id = ''g'', created_at = '''', size = 2,
       bombs = Num 1, total_cells = 4, client_seed = ''c'', server_seed = ''s'', nonce = 1,
       bet = Num 0, bombs_positions = [0], opened = [], finished = False, result = NoResult,
       payout_multiplier = None\<rparr>], []) [3, 3, 7, 1])) ''g'' = Some (0, g') \<and>
     snd (process_queue ''g'' ([\<lparr>game_id = ''g'', created_at = '''', size = 2,
       bombs = Num 1, total_cells = 4, client_seed = ''c'', server_seed = ''s'', nonce = 1,
       bet = Num 0, bombs_positions = [0], opened = [], finished = False, result = NoResult,
       payout_multiplier = None\<rparr>], []) [3, 3, 7, 1]) = opened g'"
proof -
  define g0 where "g0 = \<lparr>game_id = ''g'', created_at = '''', size = 2,
       bombs = Num 1, total_cells = 4, client_seed = ''c'', server_seed = ''s'', nonce = 1,
       bet = Num 0, bombs_positions = [0], opened = [], finished = False, result = NoResult,
       payout_multiplier = None\<rparr>"
  have "lookup_game [g0] ''g'' = Some (0, g0)"
    by (simp add: g0_def lookup_game_def)
  from process_queue_client_agrees [OF this, of "[]" "[3, 3, 7, 1]"] show ?thesis
    by (simp add: g0_def)
qed

end
