(* ===== verification/ClientApp.thy ===== *)
theory ClientApp
  imports Client
begin

text \<open>
  The rest of the client state of \<open>src/public/app.js\<close> and the handlers that change it.
  The global \<open>state\<close> (lines 5--17) is \<open>client_app\<close>, an extension of the queue part
  \<open>client_state\<close> of theory \<open>Client\<close>, with the mode of auto play and the state of
  the cashout button. \<open>client_start_game\<close> is \<open>startGame\<close> (lines 46--65): it checks
  the bomb count against the grid, posts the form as JSON to \<open>/api/start\<close> (modelled by
  \<open>start_game\<close>; the client awaits the answer, so the call is atomic on the client's
  side) and on success stores the new game's id, seeds and nonce, empties the opened list
  and the queue and enables the cashout button. \<open>reveal_single\<close> and
  \<open>process_pending\<close> are \<open>revealSingle\<close> and \<open>processQueue\<close> on the whole state
  (\<open>process_pending_queue\<close> relates them to \<open>process_queue\<close>); \<open>on_cell_click\<close>,
  \<open>client_cashout\<close>, \<open>client_verify\<close> and \<open>verify_grid\<close> are the click handler, the
  cashout and verify buttons and the grid of the verify modal. \<open>auto_round_begin\<close> and
  \<open>auto_round_end\<close> are the head and the bookkeeping of an iteration of \<open>startAuto\<close>
  (lines 206--209 and 229--236); the reveals in between are the interleavings of theory
  \<open>ClientAuto\<close>. The form fields are inputs: \<open>Number(...)\<close> of the
  selects and inputs, the trimmed client seed, and the string
  \<open>Math.random().toString(36).slice(2)\<close> used when that seed is empty. The page side
  of these handlers (grid, spinner, counters) is in theory \<open>ClientView\<close>; alerts, timers
  and network failures are not modelled.
\<close>

section \<open>Definitions\<close>

record client_app = client_state +
  c_game_id :: "string option"
  c_size :: jsnum
  c_bombs :: jsnum
  c_bet :: jsnum
  c_client_seed :: string
  c_server_seed :: "string option"
  c_nonce :: "nat option"
  c_rounds_before_refresh :: jsnum
  c_rounds_done :: nat
  c_auto_mode :: string
  c_cashout_disabled :: bool

text \<open>The initial \<open>state\<close> (lines 5--17; \<open>grid\<close> is never read). The page that holds the
  buttons is not in the repository; the cashout button is taken as disabled until a game
  starts (line 61 enables it).\<close>

definition client_init :: client_app where
  "client_init =
     \<lparr>c_opened = [], c_pending = [], c_game_id = None, c_size = Num 4, c_bombs = Num 3,
      c_bet = Num 1, c_client_seed = [], c_server_seed = None, c_nonce = None,
      c_rounds_before_refresh = Num 40, c_rounds_done = 0, c_auto_mode = ''off'',
      c_cashout_disabled = True\<rparr>"

text \<open>A number field of the body \<open>JSON.stringify({ size, bombs, clientSeed, bet })\<close>
  as the server reads it: \<open>NaN\<close> is serialised as \<open>null\<close>, which is falsy and
  converts to 0.\<close>

definition json_number_arg :: "jsnum \<Rightarrow> js_arg" where
  "json_number_arg x = (case x of Num q \<Rightarrow> (q \<noteq> 0, Num q) | NaN \<Rightarrow> (False, Num 0))"

definition client_start_request :: "jsnum \<Rightarrow> jsnum \<Rightarrow> jsnum \<Rightarrow> string \<Rightarrow> start_request" where
  "client_start_request sz bombsN betN clientSeed =
     \<lparr>req_size = json_number_arg sz, req_bombs = json_number_arg bombsN,
      req_client_seed = Some clientSeed, req_bet = json_number_arg betN\<rparr>"

text \<open>\<open>if (bombs < 1 || bombs >= size*size) return alert('Invalid bombs count')\<close>\<close>

definition client_precheck_fails :: "jsnum \<Rightarrow> jsnum \<Rightarrow> bool" where
  "client_precheck_fails sz bombsN = (js_lt bombsN (Num 1) \<or> js_le (js_mul sz sz) bombsN)"

text \<open>The answer \<open>startGame\<close> gets: none when its own check refuses (line 50) or when
  the server answers an error (line 55), else the server's answer and new history.\<close>

definition client_start_answer ::
  "hmac_sha512_hex \<Rightarrow> start_env \<Rightarrow> history \<Rightarrow> jsnum \<Rightarrow> jsnum \<Rightarrow> jsnum \<Rightarrow> string \<Rightarrow>
   (start_response \<times> history) option" where
  "client_start_answer hmac env h sz bombsN betN clientSeed =
     (if client_precheck_fails sz bombsN then None
      else
        (case start_game hmac env (client_start_request sz bombsN betN clientSeed) h of
           Inl _ \<Rightarrow> None
         | Inr (j, h') \<Rightarrow> Some (j, h')))"

definition client_start_game ::
  "hmac_sha512_hex \<Rightarrow> start_env \<Rightarrow> history \<Rightarrow> 'a client_app_scheme \<Rightarrow>
   jsnum \<Rightarrow> jsnum \<Rightarrow> jsnum \<Rightarrow> string \<Rightarrow> string \<Rightarrow> 'a client_app_scheme \<times> history" where
  "client_start_game hmac env h st sz bombsN betN seedInput randomSeed =
     (let clientSeed = (if seedInput = [] then randomSeed else seedInput) in
      case client_start_answer hmac env h sz bombsN betN clientSeed of
        None \<Rightarrow> (st, h)
      | Some (j, h') \<Rightarrow>
          (st\<lparr>c_size := sz, c_bombs := bombsN, c_bet := betN, c_client_seed := clientSeed,
              c_game_id := Some (started_id j), c_server_seed := Some (server_seed_public j),
              c_nonce := Some (started_nonce j), c_opened := [], c_pending := [],
              c_cashout_disabled := False\<rparr>, h'))"

text \<open>\<open>Number($('#autoRounds').value) || 40\<close> (line 203).\<close>

definition auto_rounds_setting :: "jsnum \<Rightarrow> jsnum" where
  "auto_rounds_setting x = (case x of Num q \<Rightarrow> if q = 0 then Num 40 else Num q | NaN \<Rightarrow> Num 40)"

text \<open>The end of a round of auto mode (lines 229--236): a round that opened every safe
  cell or disabled the cashout button (a bomb) is counted and forgets its game; the
  counter is reset once it reaches \<open>roundsBeforeRefresh\<close>.\<close>

definition auto_round_end :: "'a client_app_scheme \<Rightarrow> bool \<Rightarrow> 'a client_app_scheme" where
  "auto_round_end st cashoutDisabled =
     (let st1 = (if js_le (js_sub (js_mul (c_size st) (c_size st)) (c_bombs st))
                          (Num (of_nat (length (c_opened st)))) \<or> cashoutDisabled
                 then st\<lparr>c_rounds_done := Suc (c_rounds_done st), c_game_id := None\<rparr>
                 else st)
      in if js_le (c_rounds_before_refresh st1) (Num (of_nat (c_rounds_done st1)))
         then st1\<lparr>c_rounds_done := 0\<rparr> else st1)"

text \<open>\<open>revealSingle(index)\<close> (lines 94--111). The body of the request is built from
  \<open>state.gameId\<close> when the request is sent (line 97); the answer is handled in whatever
  state the client is in when it arrives. \<open>reveal_reply\<close> is that handling for the
  game id \<open>gid\<close> the request carried (\<open>null\<close> finds no game): an error is alerted and
  changes nothing; an answer replaces \<open>state.opened\<close> and, for a bomb, disables the
  cashout button. \<open>reveal_single\<close> sends and handles at once.\<close>

definition reveal_reply ::
  "string option \<Rightarrow> history \<Rightarrow> 'a client_app_scheme \<Rightarrow> nat \<Rightarrow> 'a client_app_scheme \<times> history" where
  "reveal_reply gid0 h st index =
     (case gid0 of
        None \<Rightarrow> (st, h)
      | Some gid \<Rightarrow>
          (case reveal_cell h gid (Num (of_nat index)) of
             Inl _ \<Rightarrow> (st, h)
           | Inr (j, h') \<Rightarrow>
               (st\<lparr>c_opened := resp_opened j,
                   c_cashout_disabled := (c_cashout_disabled st \<or> is_bomb j)\<rparr>, h')))"

text \<open>\<open>if (!res.ok) { alert(j.error || 'Reveal error'); ... }\<close> (line 99): the request for a
  missing game id is answered 404.\<close>

definition reveal_refused :: "string option \<Rightarrow> history \<Rightarrow> nat \<Rightarrow> bool" where
  "reveal_refused gid0 h index =
     (case gid0 of None \<Rightarrow> True | Some gid \<Rightarrow> isl (reveal_cell h gid (Num (of_nat index))))"

definition reveal_single ::
  "history \<Rightarrow> 'a client_app_scheme \<Rightarrow> nat \<Rightarrow> 'a client_app_scheme \<times> history" where
  "reveal_single h st index = reveal_reply (c_game_id st) h st index"

lemma reveal_reply_pending [simp]: "c_pending (fst (reveal_reply gid0 h st index)) = c_pending st"
  by (simp add: reveal_reply_def split: option.split sum.split prod.split)

lemma reveal_single_pending [simp]: "c_pending (fst (reveal_single h st index)) = c_pending st"
  by (simp add: reveal_single_def reveal_reply_def split: option.split sum.split prod.split)

text \<open>\<open>processQueue\<close> (lines 80--92) on the whole state: \<open>state.pendingQueue.shift()\<close>, then
  \<open>revealSingle\<close>, until the queue is empty.\<close>

function process_pending :: "history \<Rightarrow> 'a client_app_scheme \<Rightarrow> 'a client_app_scheme \<times> history" where
  "process_pending h st =
     (case c_pending st of
        [] \<Rightarrow> (st, h)
      | idx # queue \<Rightarrow>
          (let (st', h') = reveal_single h (st\<lparr>c_pending := queue\<rparr>) idx
           in process_pending h' st'))"
  by pat_completeness auto
termination
  by (relation "measure (\<lambda>(h, st). length (c_pending st))")
    (auto simp: prod_eq_iff dest!: sym [of "reveal_single _ _ _"])

declare process_pending.simps [simp del]

text \<open>\<open>onCellClick(index)\<close> (lines 125--128): clicks are ignored while auto mode runs.\<close>

definition on_cell_click :: "'a client_app_scheme \<Rightarrow> nat \<Rightarrow> 'a client_app_scheme" where
  "on_cell_click st index = (if c_auto_mode st \<noteq> ''off'' then st else enqueue_reveal st index)"

text \<open>\<open>cashout()\<close> (lines 130--141): on success the cashout button is disabled.\<close>

definition client_cashout :: "history \<Rightarrow> 'a client_app_scheme \<Rightarrow> 'a client_app_scheme \<times> history" where
  "client_cashout h st =
     (case c_game_id st of
        None \<Rightarrow> (st, h)
      | Some gid \<Rightarrow>
          (case cashout h gid of
             Inl _ \<Rightarrow> (st, h)
           | Inr (_, h') \<Rightarrow> (st\<lparr>c_cashout_disabled := True\<rparr>, h')))"

text \<open>\<open>verify()\<close> (lines 143--153): nothing without a game id, else the answer of
  \<open>/api/verify/:gameId\<close>; \<open>openVerifyModal\<close> (lines 167--172) draws one cell per index
  below \<open>totalCells\<close>: a bomb where the layout has one, else a gem where the cell was
  opened, else nothing.\<close>

definition client_verify :: "history \<Rightarrow> 'a client_app_scheme \<Rightarrow> (api_error + disclosure) option" where
  "client_verify h st = (case c_game_id st of None \<Rightarrow> None | Some gid \<Rightarrow> Some (verify_game h gid))"

datatype cell_view = ViewBomb | ViewGem | ViewEmpty

definition verify_grid :: "disclosure \<Rightarrow> cell_view list" where
  "verify_grid d =
     map (\<lambda>i. if i \<in> set (dis_bombs_positions d) then ViewBomb
              else if i \<in> set (dis_opened d) then ViewGem else ViewEmpty)
       [0..<dis_total_cells d]"

text \<open>The number of iterations of \<open>for (let i = 0; i < total; i++)\<close> for a JavaScript
  number \<open>total\<close>.\<close>

definition js_count_below :: "jsnum \<Rightarrow> nat" where
  "js_count_below x = (case x of Num q \<Rightarrow> nat \<lceil>q\<rceil> | NaN \<Rightarrow> 0)"

text \<open>The head of an iteration of \<open>startAuto\<close> (lines 206--209): a new game is started
  when there is none, when the current one has opened cells, or when the round counter
  is due, which is then reset.\<close>

definition auto_needs_game :: "'a client_app_scheme \<Rightarrow> bool" where
  "auto_needs_game st =
     (c_game_id st = None \<or> c_opened st \<noteq> [] \<or>
      js_le (c_rounds_before_refresh st) (Num (of_nat (c_rounds_done st))))"

definition auto_round_begin ::
  "hmac_sha512_hex \<Rightarrow> start_env \<Rightarrow> history \<Rightarrow> 'a client_app_scheme \<Rightarrow>
   jsnum \<Rightarrow> jsnum \<Rightarrow> jsnum \<Rightarrow> string \<Rightarrow> string \<Rightarrow> 'a client_app_scheme \<times> history" where
  "auto_round_begin hmac env h st sz bombsN betN seedInput randomSeed =
     (if auto_needs_game st
      then client_start_game hmac env h
             (if js_le (c_rounds_before_refresh st) (Num (of_nat (c_rounds_done st)))
              then st\<lparr>c_rounds_done := 0\<rparr> else st)
             sz bombsN betN seedInput randomSeed
      else (st, h))"

section \<open>Lemmas\<close>

lemma lookup_game_fresh:
  "game_id g \<notin> game_id ` set h \<Longrightarrow> lookup_game (h @ [g]) (game_id g) = Some (length h, g)"
  by (force simp: lookup_game_iff nth_append image_iff dest: nth_mem)

lemma start_game_Inr_id:
  "start_game hmac env req h = Inr (r, h') \<Longrightarrow> game_id (last h') = env_uuid env"
  by (auto simp: start_game_def Let_def split: if_splits option.splits)

lemma js_mul_size:
  "\<not> (\<not> js_is_integer x \<or> js_le x (Num 0)) \<Longrightarrow> js_mul x x = Num (of_nat (js_nat x * js_nat x))"
  by (cases x) (auto simp: js_nat_def)

lemma auto_rounds_setting_Num: "\<exists>q. auto_rounds_setting x = Num q"
  by (cases x) (auto simp: auto_rounds_setting_def)

text \<open>\<open>processQueue\<close> on the whole client state does what \<open>process_queue\<close> does on the
  history and the opened list; it empties the queue and leaves the other fields alone
  but the cashout button.\<close>

lemma process_pending_queue:
  assumes "c_game_id st = Some gid"
  shows "\<exists>flag. process_pending h st =
           (st\<lparr>c_opened := snd (process_queue gid (h, c_opened st) (c_pending st)), c_pending := [],
               c_cashout_disabled := flag\<rparr>,
            fst (process_queue gid (h, c_opened st) (c_pending st)))"
  using assms
proof (induction h st rule: process_pending.induct)
  case (1 h st)
  show ?case
  proof (cases "c_pending st")
    case Nil
    then show ?thesis
      by (auto simp: process_pending.simps [of h st] intro: exI [of _ "c_cashout_disabled st"])
  next
    case (Cons idx queue)
    show ?thesis
    proof (cases "reveal_cell h gid (Num (of_nat idx))")
      case (Inl e)
      have rs: "reveal_single h (st\<lparr>c_pending := queue\<rparr>) idx = (st\<lparr>c_pending := queue\<rparr>, h)"
        using Inl "1.prems" by (simp add: reveal_single_def reveal_reply_def)
      obtain flag where
        "process_pending h (st\<lparr>c_pending := queue\<rparr>) =
           ((st\<lparr>c_pending := queue\<rparr>)\<lparr>c_opened := snd (process_queue gid (h, c_opened st) queue),
              c_pending := [], c_cashout_disabled := flag\<rparr>,
            fst (process_queue gid (h, c_opened st) queue))"
        using "1.IH" [OF Cons rs [symmetric]] "1.prems" by auto
      then show ?thesis
        using Cons Inl rs by (auto simp: process_pending.simps [of h st])
    next
      case (Inr jh)
      obtain j h' where jh: "reveal_cell h gid (Num (of_nat idx)) = Inr (j, h')"
        using Inr by (cases jh) auto
      let ?st' = "st\<lparr>c_pending := queue, c_opened := resp_opened j,
                     c_cashout_disabled := (c_cashout_disabled st \<or> is_bomb j)\<rparr>"
      have rs: "reveal_single h (st\<lparr>c_pending := queue\<rparr>) idx = (?st', h')"
        using jh "1.prems" by (simp add: reveal_single_def reveal_reply_def)
      obtain flag where
        "process_pending h' ?st' =
           (?st'\<lparr>c_opened := snd (process_queue gid (h', resp_opened j) queue),
              c_pending := [], c_cashout_disabled := flag\<rparr>,
            fst (process_queue gid (h', resp_opened j) queue))"
        using "1.IH" [OF Cons rs [symmetric]] "1.prems" by auto
      then show ?thesis
        using Cons jh rs by (auto simp: process_pending.simps [of h st])
    qed
  qed
qed

lemma process_pending_disabled_mono:
  "c_cashout_disabled st \<Longrightarrow> c_cashout_disabled (fst (process_pending h st))"
proof (induction h st rule: process_pending.induct)
  case (1 h st)
  show ?case
  proof (cases "c_pending st")
    case Nil
    then show ?thesis using "1.prems" by (simp add: process_pending.simps [of h st])
  next
    case (Cons idx queue)
    obtain st' h' where rs: "reveal_single h (st\<lparr>c_pending := queue\<rparr>) idx = (st', h')"
      by (cases "reveal_single h (st\<lparr>c_pending := queue\<rparr>) idx")
    have "c_cashout_disabled st'"
      using rs "1.prems" by (auto simp: reveal_single_def reveal_reply_def split: option.splits sum.splits prod.splits)
    then show ?thesis
      using "1.IH" [OF Cons rs [symmetric]] Cons rs by (simp add: process_pending.simps [of h st])
  qed
qed

lemma reveal_cell_safe_result:
  assumes "reveal_cell h gid x = Inr (j, h')" and "\<not> is_bomb j"
    and "lookup_game h gid = Some (p, g)"
  shows "result (resp_game j) = result g"
  using assms by (auto simp: reveal_cell_def Let_def split: if_splits)

text \<open>The cashout button is disabled after the queue has run if a reveal of the queue
  turned the game into a lost one (the answer of that reveal had \<open>isBomb\<close>).\<close>

lemma process_pending_bomb_disables:
  assumes "c_game_id st = Some gid" and "lookup_game h gid = Some (p, g)" and "result g \<noteq> Lost"
    and "lookup_game (snd (process_pending h st)) gid = Some (p, g')" and "result g' = Lost"
  shows "c_cashout_disabled (fst (process_pending h st))"
  using assms
proof (induction h st arbitrary: g rule: process_pending.induct)
  case (1 h st)
  show ?case
  proof (cases "c_pending st")
    case Nil
    then show ?thesis
      using "1.prems" by (simp add: process_pending.simps [of h st])
  next
    case (Cons idx queue)
    show ?thesis
    proof (cases "reveal_cell h gid (Num (of_nat idx))")
      case (Inl e)
      have rs: "reveal_single h (st\<lparr>c_pending := queue\<rparr>) idx = (st\<lparr>c_pending := queue\<rparr>, h)"
        using Inl "1.prems"(1) by (simp add: reveal_single_def reveal_reply_def)
      have pp: "process_pending h st = process_pending h (st\<lparr>c_pending := queue\<rparr>)"
        using Cons rs by (simp add: process_pending.simps [of h st])
      show ?thesis
        using "1.IH" [OF Cons rs [symmetric], where g = g] "1.prems" pp by simp
    next
      case (Inr jh)
      obtain j h' where jh: "reveal_cell h gid (Num (of_nat idx)) = Inr (j, h')"
        using Inr by (cases jh) auto
      let ?st' = "st\<lparr>c_pending := queue, c_opened := resp_opened j,
                     c_cashout_disabled := (c_cashout_disabled st \<or> is_bomb j)\<rparr>"
      have rs: "reveal_single h (st\<lparr>c_pending := queue\<rparr>) idx = (?st', h')"
        using jh "1.prems"(1) by (simp add: reveal_single_def reveal_reply_def)
      have pp: "process_pending h st = process_pending h' ?st'"
        using Cons rs by (simp add: process_pending.simps [of h st])
      have l': "lookup_game h' gid = Some (p, resp_game j)"
        using reveal_cell_Inr_update [OF jh "1.prems"(2)] by blast
      show ?thesis
      proof (cases "is_bomb j")
        case True
        then show ?thesis
          using process_pending_disabled_mono [of ?st' h'] pp by simp
      next
        case False
        have "result (resp_game j) \<noteq> Lost"
          using reveal_cell_safe_result [OF jh False "1.prems"(2)] "1.prems"(3) by simp
        then show ?thesis
          using "1.IH" [OF Cons rs [symmetric], where g = "resp_game j"] "1.prems"(1,4,5) l' pp by simp
      qed
    qed
  qed
qed

text \<open>A form the client sends with an integer size whose grid stays below \<open>2^32\<close> cells
  (above, \<open>Array.from\<close> throws and the answer is 500), a bomb count in range and a seed
  starts a game.\<close>

lemma client_request_starts:
  assumes n: "0 < n" and b: "1 \<le> b" "b < n * n" and cs: "cs \<noteq> []"
    and big: "n * n < 2 ^ 32"
  shows "\<exists>j g. start_game hmac env (client_start_request (Num (of_nat n)) (Num (of_nat b)) betN cs) h =
                 Inr (j, h @ [g]) \<and> total_cells g = n * n \<and> bombs g = Num (of_nat b) \<and>
                 game_id g = env_uuid env \<and> started_id j = game_id g \<and>
                 server_seed_public j = server_seed g \<and> started_nonce j = nonce g"
proof -
  have nb: "\<not> (of_nat (n * n) :: rat) \<le> of_nat b"
    using b(2) by (simp only: of_nat_le_iff not_le)
  have nb1: "\<not> (of_nat b :: rat) < 1"
    using b(1) by simp
  have nb2: "\<not> n * n \<le> b"
    using b(2) by simp
  have nb3: "\<not> 2 ^ 32 \<le> n * n"
    using big by simp
  show ?thesis
    using n b cs nb nb1 nb2 nb3
    by (simp add: start_game_def client_start_request_def json_number_arg_def Let_def
        client_seed_missing_def js_nat_def)
qed

lemma js_count_below_square [simp]:
  "js_count_below (Num (of_nat n * of_nat n)) = n * n"
  by (simp add: js_count_below_def flip: of_nat_mult)

text \<open>A cashout from the client on its running game ends that game on the server and
  disables the button.\<close>

lemma client_cashout_running:
  assumes "c_game_id st = Some gid" and "lookup_game h gid = Some (p, g)" and "\<not> finished g"
  shows "\<exists>g'. client_cashout h st = (st\<lparr>c_cashout_disabled := True\<rparr>, h[p := g']) \<and>
              finished g' \<and> result g' = Cashed"
  using assms cashout_active [OF assms(2,3)] by (auto simp: client_cashout_def)

text \<open>The verify modal draws one bomb per position of a layout of distinct cells of the
  grid.\<close>

lemma verify_grid_bombs:
  assumes "distinct (dis_bombs_positions d)" and "set (dis_bombs_positions d) \<subseteq> {..<dis_total_cells d}"
  shows "length (filter (\<lambda>v. v = ViewBomb) (verify_grid d)) = length (dis_bombs_positions d)"
proof -
  have "length (filter (\<lambda>v. v = ViewBomb) (verify_grid d)) =
        length (filter (\<lambda>i. i \<in> set (dis_bombs_positions d)) [0..<dis_total_cells d])"
    by (simp add: verify_grid_def filter_map comp_def)
  also have "\<dots> = card (set (dis_bombs_positions d))"
  proof -
    have "set (dis_bombs_positions d) \<inter> {0..<dis_total_cells d} = set (dis_bombs_positions d)"
      using assms(2) by auto
    then show ?thesis
      by (simp add: distinct_length_filter)
  qed
  also have "\<dots> = length (dis_bombs_positions d)"
    using assms(1) by (simp add: distinct_card)
  finally show ?thesis .
qed

text \<open>While auto mode runs, a click on a cell queues nothing.\<close>

lemma on_cell_click_auto_pending:
  "c_auto_mode st \<noteq> ''off'' \<Longrightarrow> c_pending (foldl on_cell_click st clicks) = c_pending st"
  by (induction clicks arbitrary: st) (simp_all add: on_cell_click_def)

text \<open>C26: \<open>startGame\<close> and \<open>/api/start\<close> together: either nothing changes (the client's
  check or the server refused), or the history grows by one game and the client now holds
  its id, nonce and server seed, with an empty opened list that is the game's and an empty
  queue. With a fresh uuid, the id names that new game, so the reveal queue of theory
  \<open>Client\<close> starts in agreement with the server.\<close>

theorem client_start_game_syncs:
  assumes run: "client_start_game hmac env h st sz bombsN betN seedInput randomSeed = (st', h')"
    and fresh: "env_uuid env \<notin> game_id ` set h"
  shows "(st' = st \<and> h' = h) \<or>
         (\<exists>g. h' = h @ [g] \<and> c_game_id st' = Some (game_id g) \<and>
              lookup_game h' (game_id g) = Some (length h, g) \<and>
              c_opened st' = opened g \<and> opened g = [] \<and> c_pending st' = [] \<and>
              c_nonce st' = Some (nonce g) \<and> nonce g = length h + 1 \<and>
              c_server_seed st' = Some (server_seed g))"
proof -
  let ?cs = "if seedInput = [] then randomSeed else seedInput"
  let ?req = "client_start_request sz bombsN betN ?cs"
  show ?thesis
  proof (cases "\<not> client_precheck_fails sz bombsN \<and> (\<exists>j h''. start_game hmac env ?req h = Inr (j, h''))")
    case True
    then obtain j h'' where ok: "\<not> client_precheck_fails sz bombsN"
        and sg: "start_game hmac env ?req h = Inr (j, h'')"
      by blast
    obtain g where g: "h'' = h @ [g]" "nonce g = length h + 1" "opened g = []"
        "started_id j = game_id g" "server_seed_public j = server_seed g" "started_nonce j = nonce g"
      using start_game_Inr [OF sg] by blast
    have "game_id g = env_uuid env"
      using start_game_Inr_id [OF sg] g(1) by simp
    then have "game_id g \<notin> game_id ` set h"
      using fresh by simp
    then have l: "lookup_game (h @ [g]) (game_id g) = Some (length h, g)"
      by (rule lookup_game_fresh)
    have "st' = st\<lparr>c_size := sz, c_bombs := bombsN, c_bet := betN, c_client_seed := ?cs,
                 c_game_id := Some (started_id j), c_server_seed := Some (server_seed_public j),
                 c_nonce := Some (started_nonce j), c_opened := [], c_pending := [],
                 c_cashout_disabled := False\<rparr>" "h' = h''"
      using run ok sg by (simp_all add: client_start_game_def client_start_answer_def Let_def)
    then show ?thesis
      using g l by auto
  next
    case False
    then have "st' = st \<and> h' = h"
      using run by (auto simp: client_start_game_def client_start_answer_def Let_def split: sum.splits)
    then show ?thesis ..
  qed
qed

theorem client_start_game_syncs_witness:
  "c_game_id (fst (client_start_game (\<lambda>_ _. ''00'')
       \<lparr>env_fetch = FetchFailed, env_now_ms = 0, env_now_iso = ''t'', env_uuid = ''g''\<rparr>
       [] client_init (Num 2) (Num 1) (Num 1) ''abc'' ''r'')) = Some ''g'' \<and>
   lookup_game (snd (client_start_game (\<lambda>_ _. ''00'')
       \<lparr>env_fetch = FetchFailed, env_now_ms = 0, env_now_iso = ''t'', env_uuid = ''g''\<rparr>
       [] client_init (Num 2) (Num 1) (Num 1) ''abc'' ''r'')) ''g'' \<noteq> None"
  using client_start_game_syncs [OF prod.collapse [symmetric], where hmac = "\<lambda>_ _. ''00''"
      and env = "\<lparr>env_fetch = FetchFailed, env_now_ms = 0, env_now_iso = ''t'', env_uuid = ''g''\<rparr>"
      and h = "[]" and st = client_init and sz = "Num 2" and bombsN = "Num 1" and betN = "Num 1"
      and seedInput = "''abc''" and randomSeed = "''r''"]
  by (auto simp: client_start_game_def client_start_answer_def client_precheck_fails_def client_start_request_def
      json_number_arg_def start_game_def Let_def client_seed_missing_def js_nat_def client_init_def)

text \<open>C27: the client's own check of the bomb count never blocks a game the server would
  start: whenever \<open>startGame\<close> refuses locally, \<open>/api/start\<close> would have refused the same
  form too (the client check is a sound shortcut of the server's).\<close>

theorem client_precheck_sound:
  assumes "client_precheck_fails sz bombsN"
  shows "\<exists>e. start_game hmac env (client_start_request sz bombsN betN cs) h = Inl e"
  using assms
  by (cases sz; cases bombsN)
    (auto simp: start_game_def client_start_request_def json_number_arg_def
       client_precheck_fails_def js_nat_def Let_def)

theorem client_precheck_sound_witness:
  "\<exists>e. start_game (\<lambda>_ _. ''00'') \<lparr>env_fetch = FetchFailed, env_now_ms = 0, env_now_iso = ''t'',
       env_uuid = ''g''\<rparr> (client_start_request (Num 2) (Num 4) (Num 1) ''abc'') [] = Inl e"
  by (rule client_precheck_sound) (simp add: client_precheck_fails_def)

text \<open>The round counter of auto mode stays below \<open>roundsBeforeRefresh\<close>: whatever the
  input of the rounds field (\<open>Number(...) || 40\<close> is never \<open>NaN\<close>), after the bookkeeping
  of a round the counter is 0 or smaller than the setting.\<close>

theorem auto_round_end_bounded:
  assumes "c_rounds_before_refresh st = auto_rounds_setting x"
  shows "c_rounds_done (auto_round_end st d) = 0 \<or>
         js_lt (Num (of_nat (c_rounds_done (auto_round_end st d)))) (c_rounds_before_refresh st)"
proof -
  obtain q where "c_rounds_before_refresh st = Num q"
    using assms auto_rounds_setting_Num by metis
  then show ?thesis
    by (auto simp: auto_round_end_def Let_def)
qed

theorem auto_round_end_bounded_witness:
  "c_rounds_done (auto_round_end (client_init\<lparr>c_rounds_before_refresh := auto_rounds_setting (Num 2),
       c_rounds_done := 1\<rparr>) True) = 0 \<or>
   js_lt (Num (of_nat (c_rounds_done (auto_round_end (client_init\<lparr>c_rounds_before_refresh :=
       auto_rounds_setting (Num 2), c_rounds_done := 1\<rparr>) True))))
     (c_rounds_before_refresh (client_init\<lparr>c_rounds_before_refresh := auto_rounds_setting (Num 2),
       c_rounds_done := 1\<rparr>))"
  by (rule auto_round_end_bounded) simp

end
