(* ===== verification/ClientAuto.thy ===== *)
theory ClientAuto
  imports ClientApp
begin

text \<open>
  One round of \<open>startAuto\<close> (\<open>src/public/app.js\<close>, lines 210--227) as the interleaving it
  is in the browser. The loop of \<open>startAuto\<close> enqueues the cells (mode \<open>enjoy\<close>: one
  per 50 ms with \<open>await\<close>, lines 215--221; mode \<open>fast\<close>: all at once, line 223), while
  \<open>processQueue\<close> (lines 80--92) shifts one index (line 84), waits 150--350 ms, sends it
  with \<open>revealSingle\<close>, which reads \<open>state.gameId\<close> only then (line 97), and handles the
  answer (lines 94--111). The round ends when
  \<open>pendingQueue\<close> is empty (line 227), not when the last answer has arrived. The state
  \<open>auto_round\<close> holds the server's history, the client state, the loop index, the request
  position of the loop of \<open>processQueue\<close> (\<open>queue_stage\<close>: idle, waiting out the
  delay with the shifted index, or awaiting the request, with the game id it carried) and
  the number of alerts shown. The relation \<open>auto_round_step\<close> has one rule per event: an
  iteration of the enqueue loop, a shift by \<open>processQueue\<close>, the send at the end of the
  delay, the answer of the request in flight (handled by the server and the client at
  that moment). Timers only order these events; every order is allowed,
  which covers both modes (\<open>fast\<close> is the order with every enqueue first).
\<close>

section \<open>Definitions\<close>

datatype queue_stage = Idle | Delaying nat | Requesting "string option" nat

record auto_round =
  ar_hist :: history
  ar_client :: client_app
  ar_next :: nat
  ar_inflight :: queue_stage
  ar_alerts :: nat

inductive auto_round_step :: "nat \<Rightarrow> auto_round \<Rightarrow> auto_round \<Rightarrow> bool" for cells where
  enqueue: "ar_next r < cells \<Longrightarrow>
    auto_round_step cells r
      (r\<lparr>ar_client := (if ar_next r \<in> set (c_opened (ar_client r)) then ar_client r
                       else enqueue_reveal (ar_client r) (ar_next r)),
         ar_next := Suc (ar_next r)\<rparr>)"
| shift: "ar_inflight r = Idle \<Longrightarrow> c_pending (ar_client r) = idx # queue \<Longrightarrow>
    auto_round_step cells r
      (r\<lparr>ar_client := (ar_client r)\<lparr>c_pending := queue\<rparr>, ar_inflight := Delaying idx\<rparr>)"
| send: "ar_inflight r = Delaying idx \<Longrightarrow>
    auto_round_step cells r (r\<lparr>ar_inflight := Requesting (c_game_id (ar_client r)) idx\<rparr>)"
| reply: "ar_inflight r = Requesting gid0 idx \<Longrightarrow>
    auto_round_step cells r
      (r\<lparr>ar_hist := snd (reveal_reply gid0 (ar_hist r) (ar_client r) idx),
         ar_client := fst (reveal_reply gid0 (ar_hist r) (ar_client r) idx),
         ar_inflight := Idle,
         ar_alerts := ar_alerts r + (if reveal_refused gid0 (ar_hist r) idx then 1 else 0)\<rparr>)"

definition auto_round_init :: "history \<Rightarrow> client_app \<Rightarrow> auto_round" where
  "auto_round_init h st =
     \<lparr>ar_hist = h, ar_client = st, ar_next = 0, ar_inflight = Idle, ar_alerts = 0\<rparr>"

text \<open>\<open>while (state.pendingQueue.length>0) await ...\<close> (line 227) has returned: the loop
  over the cells is done and the queue is empty.\<close>

definition auto_round_over :: "nat \<Rightarrow> auto_round \<Rightarrow> bool" where
  "auto_round_over cells r \<longleftrightarrow> ar_next r = cells \<and> c_pending (ar_client r) = []"

text \<open>The state of a round on a fresh game \<open>g\<close> at position \<open>p\<close> of \<open>h\<close> with lowest bomb
  \<open>b\<close>, after the first \<open>k\<close> cells have been answered.\<close>

definition round_inv :: "history \<Rightarrow> nat \<Rightarrow> game \<Rightarrow> string \<Rightarrow> client_app \<Rightarrow> auto_round \<Rightarrow> bool" where
  "round_inv h p g gid st r \<longleftrightarrow>
     (\<exists>k. k \<le> ar_next r \<and> ar_next r \<le> total_cells g \<and>
        ar_hist r = h[p := (if k \<le> hd (bombs_positions g) then g\<lparr>opened := [0..<k]\<rparr>
                           else g\<lparr>opened := [0..<Suc (hd (bombs_positions g))], finished := True,
                                  result := Lost\<rparr>)] \<and>
        ar_client r = st\<lparr>c_opened := [0..<min k (Suc (hd (bombs_positions g)))],
                         c_pending := (if ar_inflight r = Idle then [k..<ar_next r]
                                       else [Suc k..<ar_next r]),
                         c_cashout_disabled := (c_cashout_disabled st \<or> hd (bombs_positions g) < k)\<rparr> \<and>
        ar_alerts r = k - Suc (hd (bombs_positions g)) \<and>
        (ar_inflight r = Idle \<or>
         (ar_inflight r = Delaying k \<or> ar_inflight r = Requesting (Some gid) k) \<and> k < ar_next r))"

text \<open>A state of that round before its lowest bomb: the first \<open>k\<close> cells answered, the
  cells \<open>k, ..., n - 1\<close> queued, nothing in flight.\<close>

definition round_at :: "history \<Rightarrow> nat \<Rightarrow> game \<Rightarrow> client_app \<Rightarrow> nat \<Rightarrow> nat \<Rightarrow> auto_round" where
  "round_at h p g st k n =
     \<lparr>ar_hist = h[p := g\<lparr>opened := [0..<k]\<rparr>], ar_client = st\<lparr>c_opened := [0..<k], c_pending := [k..<n]\<rparr>,
      ar_next = n, ar_inflight = Idle, ar_alerts = 0\<rparr>"

text \<open>The weight of the position of \<open>processQueue\<close> in the termination measure.\<close>

fun stage_weight :: "queue_stage \<Rightarrow> nat" where
  "stage_weight Idle = 0"
| "stage_weight (Delaying _) = 2"
| "stage_weight (Requesting _ _) = 1"

section \<open>Lemmas\<close>

text \<open>Every event of a round decreases \<open>4 (total - i) + 3 |queue| + w\<close>, with \<open>w\<close> 2 during
  the delay, 1 while the request is awaited and 0 otherwise.\<close>

lemma auto_round_step_measure:
  "auto_round_step cells r r' \<Longrightarrow>
     4 * (cells - ar_next r') + 3 * length (c_pending (ar_client r')) + stage_weight (ar_inflight r')
   < 4 * (cells - ar_next r) + 3 * length (c_pending (ar_client r)) + stage_weight (ar_inflight r)"
  by (induction rule: auto_round_step.induct) (auto simp: enqueue_reveal_def)

text \<open>A state with no successor is the end of the round with nothing in flight.\<close>

lemma auto_round_stuck:
  assumes "ar_next r \<le> cells" and "\<forall>r'. \<not> auto_round_step cells r r'"
  shows "auto_round_over cells r \<and> ar_inflight r = Idle"
proof -
  have "ar_inflight r = Idle"
    using assms(2) reply [of r] send [of r] by (cases "ar_inflight r") auto
  moreover have "c_pending (ar_client r) = []"
    using assms(2) shift [of r] calculation by (cases "c_pending (ar_client r)") auto
  moreover have "ar_next r = cells"
    using assms enqueue [of r cells] by fastforce
  ultimately show ?thesis
    by (simp add: auto_round_over_def)
qed

lemma auto_round_step_next_le:
  "auto_round_step cells r r' \<Longrightarrow> ar_next r \<le> cells \<Longrightarrow> ar_next r' \<le> cells"
  by (induction rule: auto_round_step.induct) auto

text \<open>From every state of a round, the events can run the round to its end with nothing
  in flight.\<close>

lemma auto_round_progress:
  assumes "ar_next r \<le> cells"
  shows "\<exists>r'. (auto_round_step cells)\<^sup>*\<^sup>* r r' \<and> auto_round_over cells r' \<and> ar_inflight r' = Idle"
  using assms
proof (induction "4 * (cells - ar_next r) + 3 * length (c_pending (ar_client r)) +
                  stage_weight (ar_inflight r)" arbitrary: r rule: less_induct)
  case less
  show ?case
  proof (cases "\<exists>r'. auto_round_step cells r r'")
    case True
    then obtain r' where s: "auto_round_step cells r r'"
      by blast
    obtain r'' where "(auto_round_step cells)\<^sup>*\<^sup>* r' r''" "auto_round_over cells r''"
        "ar_inflight r'' = Idle"
      using less.hyps [OF auto_round_step_measure [OF s] auto_round_step_next_le [OF s less.prems]]
      by blast
    then show ?thesis
      using s by (meson converse_rtranclp_into_rtranclp)
  next
    case False
    then show ?thesis
      using auto_round_stuck [OF less.prems] by blast
  qed
qed


text \<open>The answer to the request for cell \<open>k\<close> in the round of \<open>round_inv\<close>: below the
  lowest bomb a gem, at it the bomb, above it a refusal (the game is finished).\<close>

lemma round_reply:
  assumes lk: "lookup_game h gid = Some (p, g)" and nf: "\<not> finished g" and inv: "game_inv g"
    and ne: "bombs_positions g \<noteq> []" and kl: "k < total_cells g"
    and hk: "hk = h[p := (if k \<le> hd (bombs_positions g) then g\<lparr>opened := [0..<k]\<rparr>
                          else g\<lparr>opened := [0..<Suc (hd (bombs_positions g))], finished := True,
                                 result := Lost\<rparr>)]"
    and sk: "c_opened sk = [0..<min k (Suc (hd (bombs_positions g)))]"
    and dk: "c_cashout_disabled sk = (d \<or> hd (bombs_positions g) < k)"
  shows "snd (reveal_reply (Some gid) hk sk k) =
           h[p := (if Suc k \<le> hd (bombs_positions g) then g\<lparr>opened := [0..<Suc k]\<rparr>
                  else g\<lparr>opened := [0..<Suc (hd (bombs_positions g))], finished := True,
                         result := Lost\<rparr>)] \<and>
         fst (reveal_reply (Some gid) hk sk k) =
           sk\<lparr>c_opened := [0..<min (Suc k) (Suc (hd (bombs_positions g)))],
              c_cashout_disabled := (d \<or> hd (bombs_positions g) < Suc k)\<rparr> \<and>
         reveal_refused (Some gid) hk k = (hd (bombs_positions g) < k)"
proof -
  let ?b = "hd (bombs_positions g)"
  have gid: "game_id g = gid"
    using lk by (simp add: lookup_game_iff)
  have sorted: "sorted (bombs_positions g)"
    using inv by (simp add: game_inv_def)
  consider (safe) "k < ?b" | (bomb) "k = ?b" | (after) "?b < k"
    by linarith
  then show ?thesis
  proof cases
    case safe
    have l: "lookup_game hk gid = Some (p, g\<lparr>opened := [0..<k]\<rparr>)"
      using lookup_game_update [OF lk] gid safe hk by simp
    have "k \<notin> set (bombs_positions g)"
      using sorted_hd_min [OF sorted ne safe] .
    then have "reveal_cell hk gid (Num (of_nat k)) =
        Inr (\<lparr>is_bomb = False, resp_opened = [0..<Suc k],
               multiplier = compute_multiplier (total_cells g) (bombs g) (Suc k),
               resp_game = g\<lparr>opened := [0..<Suc k]\<rparr>\<rparr>, hk[p := g\<lparr>opened := [0..<Suc k]\<rparr>])"
      using reveal_cell_safe [OF l] nf kl by simp
    then show ?thesis
      using safe hk sk dk by (simp add: reveal_reply_def reveal_refused_def min_def)
  next
    case bomb
    have l: "lookup_game hk gid = Some (p, g\<lparr>opened := [0..<k]\<rparr>)"
      using lookup_game_update [OF lk] gid bomb hk by simp
    have "k \<in> set (bombs_positions g)"
      using bomb ne by simp
    then have "reveal_cell hk gid (Num (of_nat k)) =
        Inr (\<lparr>is_bomb = True, resp_opened = [0..<Suc k], multiplier = Num 0,
               resp_game = g\<lparr>opened := [0..<Suc k], finished := True, result := Lost\<rparr>\<rparr>,
             hk[p := g\<lparr>opened := [0..<Suc k], finished := True, result := Lost\<rparr>])"
      using reveal_cell_bomb [OF l] nf kl by simp
    then show ?thesis
      using bomb hk sk dk by (simp add: reveal_reply_def reveal_refused_def)
  next
    case after
    let ?gl = "g\<lparr>opened := [0..<Suc ?b], finished := True, result := Lost\<rparr>"
    have l: "lookup_game hk gid = Some (p, ?gl)"
      using lookup_game_update [OF lk] gid after hk by simp
    have "reveal_cell hk gid (Num (of_nat k)) = Inl GameAlreadyFinished"
      using reveal_cell_errors(2) [OF l] by simp
    moreover have "sk\<lparr>c_opened := [0..<min (Suc k) (Suc ?b)],
                       c_cashout_disabled := (d \<or> ?b < Suc k)\<rparr> = sk"
    proof -
      have "min k (Suc ?b) = Suc ?b" "min (Suc k) (Suc ?b) = Suc ?b"
        using after by simp_all
      then show ?thesis
        using after sk dk by (cases sk) simp
    qed
    ultimately show ?thesis
      using after hk by (simp add: reveal_reply_def reveal_refused_def)
  qed
qed


lemma round_inv_init:
  assumes lk: "lookup_game h gid = Some (p, g)" and op: "opened g = []"
    and st: "c_opened st = []" "c_pending st = []"
  shows "round_inv h p g gid st (auto_round_init h st)"
proof -
  have "g\<lparr>opened := [0..<0]\<rparr> = g"
    using op by (cases g) simp
  moreover have "h ! p = g"
    using lk by (simp add: lookup_game_iff)
  ultimately have "h[p := g\<lparr>opened := [0..<0]\<rparr>] = h"
    by (metis list_update_id)
  moreover have "st\<lparr>c_opened := [0..<min 0 (Suc (hd (bombs_positions g)))], c_pending := [0..<0],
                    c_cashout_disabled := (c_cashout_disabled st \<or> hd (bombs_positions g) < 0)\<rparr> = st"
    using st by (cases st) simp
  ultimately show ?thesis
    unfolding round_inv_def auto_round_init_def by (intro exI [of _ 0]) simp
qed

lemma round_inv_step:
  assumes lk: "lookup_game h gid = Some (p, g)" and nf: "\<not> finished g" and inv: "game_inv g"
    and ne: "bombs_positions g \<noteq> []" and gst: "c_game_id st = Some gid"
    and ri: "round_inv h p g gid st r" and s: "auto_round_step (total_cells g) r r'"
  shows "round_inv h p g gid st r'"
proof -
  let ?b = "hd (bombs_positions g)"
  obtain k where k: "k \<le> ar_next r" "ar_next r \<le> total_cells g"
    and hk: "ar_hist r = h[p := (if k \<le> ?b then g\<lparr>opened := [0..<k]\<rparr>
                   else g\<lparr>opened := [0..<Suc ?b], finished := True, result := Lost\<rparr>)]"
    and ck: "ar_client r = st\<lparr>c_opened := [0..<min k (Suc ?b)],
                   c_pending := (if ar_inflight r = Idle then [k..<ar_next r] else [Suc k..<ar_next r]),
                   c_cashout_disabled := (c_cashout_disabled st \<or> ?b < k)\<rparr>"
    and ak: "ar_alerts r = k - Suc ?b"
    and fl: "ar_inflight r = Idle \<or>
             (ar_inflight r = Delaying k \<or> ar_inflight r = Requesting (Some gid) k) \<and> k < ar_next r"
    using ri unfolding round_inv_def by blast
  from s show ?thesis
  proof cases
    case enqueue
    have fresh: "ar_next r \<notin> set (c_opened (ar_client r)) \<union> set (c_pending (ar_client r))"
      using ck k(1) by auto
    have app: "c_pending (ar_client r) @ [ar_next r] =
               (if ar_inflight r = Idle then [k..<Suc (ar_next r)] else [Suc k..<Suc (ar_next r)])"
      using ck k(1) fl by auto
    have r': "ar_hist r' = ar_hist r" "ar_alerts r' = ar_alerts r" "ar_next r' = Suc (ar_next r)"
        "ar_inflight r' = ar_inflight r"
      using enqueue(1) by simp_all
    have fl': "ar_inflight r' = Idle \<or>
             (ar_inflight r' = Delaying k \<or> ar_inflight r' = Requesting (Some gid) k) \<and> k < ar_next r'"
      using fl r' by auto
    have "ar_client r' = st\<lparr>c_opened := [0..<min k (Suc ?b)],
            c_pending := (if ar_inflight r' = Idle then [k..<ar_next r'] else [Suc k..<ar_next r']),
            c_cashout_disabled := (c_cashout_disabled st \<or> ?b < k)\<rparr>"
      using enqueue fresh app by (simp add: ck enqueue_reveal_def)
    then show ?thesis
      unfolding round_inv_def
      using enqueue(2) k hk ak fl' r' by (intro exI [of _ k]) simp
  next
    case (shift idx queue)
    have kn: "k < ar_next r" and q: "idx = k" "queue = [Suc k..<ar_next r]"
    proof -
      have "c_pending (ar_client r) = [k..<ar_next r]"
        using ck shift(2) by simp
      then have "[k..<ar_next r] = idx # queue"
        using shift(3) by simp
      then show "k < ar_next r" "idx = k" "queue = [Suc k..<ar_next r]"
        by (auto simp: upt_eq_Cons_conv)
    qed
    have r': "ar_hist r' = ar_hist r" "ar_alerts r' = ar_alerts r" "ar_next r' = ar_next r"
        "ar_inflight r' = Delaying k"
        "ar_client r' = st\<lparr>c_opened := [0..<min k (Suc ?b)], c_pending := [Suc k..<ar_next r],
                          c_cashout_disabled := (c_cashout_disabled st \<or> ?b < k)\<rparr>"
      using shift(1,2) q by (simp_all add: ck)
    show ?thesis
      unfolding round_inv_def
      using k hk ak kn r' by (intro exI [of _ k]) simp
  next
    case (send idx)
    have f: "idx = k" "k < ar_next r"
      using fl send(2) by simp_all
    have "c_game_id (ar_client r) = Some gid"
      using ck gst by simp
    then have r': "ar_hist r' = ar_hist r" "ar_alerts r' = ar_alerts r" "ar_next r' = ar_next r"
        "ar_client r' = ar_client r" "ar_inflight r' = Requesting (Some gid) k"
      using send(1) f by simp_all
    show ?thesis
      unfolding round_inv_def
      using k hk ak f(2) r' ck send(2) by (intro exI [of _ k]) simp
  next
    case (reply gid0 idx)
    have f: "gid0 = Some gid" "idx = k" "k < ar_next r"
      using fl reply(2) by simp_all
    have kl: "k < total_cells g"
      using f(3) k(2) by simp
    have cr: "ar_client r = st\<lparr>c_opened := [0..<min k (Suc ?b)], c_pending := [Suc k..<ar_next r],
                c_cashout_disabled := (c_cashout_disabled st \<or> ?b < k)\<rparr>"
      using ck reply(2) by simp
    have ck': "c_opened (ar_client r) = [0..<min k (Suc ?b)]"
        "c_cashout_disabled (ar_client r) = (c_cashout_disabled st \<or> ?b < k)"
      using cr by simp_all
    note rr = round_reply [OF lk nf inv ne kl hk ck'(1,2)]
    have al: "k - Suc ?b + (if ?b < k then 1 else 0) = Suc k - Suc ?b"
      by (cases "?b < k") simp_all
    have r': "ar_hist r' = h[p := (if Suc k \<le> ?b then g\<lparr>opened := [0..<Suc k]\<rparr>
                   else g\<lparr>opened := [0..<Suc ?b], finished := True, result := Lost\<rparr>)]"
        "ar_alerts r' = Suc k - Suc ?b" "ar_inflight r' = Idle" "ar_next r' = ar_next r"
      using reply(1) f rr ak al by simp_all
    have c': "ar_client r' = st\<lparr>c_opened := [0..<min (Suc k) (Suc ?b)], c_pending := [Suc k..<ar_next r],
                   c_cashout_disabled := (c_cashout_disabled st \<or> ?b < Suc k)\<rparr>"
      using reply(1) f rr by (simp add: cr)
    show ?thesis
      unfolding round_inv_def
      using k(2) f(3) r' c' by (intro exI [of _ "Suc k"]) simp
  qed
qed


text \<open>The enqueue loop alone: the cells \<open>i, ..., n - 1\<close> are queued in order.\<close>

lemma auto_round_enqueue_all:
  assumes "ar_next r \<le> n" and "n \<le> cells"
    and "set [ar_next r..<n] \<inter> (set (c_opened (ar_client r)) \<union> set (c_pending (ar_client r))) = {}"
  shows "(auto_round_step cells)\<^sup>*\<^sup>* r
           (r\<lparr>ar_client := (ar_client r)\<lparr>c_pending := c_pending (ar_client r) @ [ar_next r..<n]\<rparr>,
              ar_next := n\<rparr>)"
  using assms
proof (induction n)
  case 0
  then show ?case by (cases r) simp
next
  case (Suc n)
  show ?case
  proof (cases "ar_next r = Suc n")
    case True
    then show ?thesis by (cases r) simp
  next
    case False
    let ?r = "r\<lparr>ar_client := (ar_client r)\<lparr>c_pending := c_pending (ar_client r) @ [ar_next r..<n]\<rparr>,
                 ar_next := n\<rparr>"
    have le: "ar_next r \<le> n"
      using False Suc.prems(1) by simp
    have run: "(auto_round_step cells)\<^sup>*\<^sup>* r ?r"
      using Suc.IH le Suc.prems(2,3) by simp
    have fresh: "n \<notin> set (c_opened (ar_client r))" "n \<notin> set (c_pending (ar_client r))"
      using Suc.prems(3) le by auto
    have "auto_round_step cells ?r
            (?r\<lparr>ar_client := enqueue_reveal (ar_client ?r) n, ar_next := Suc n\<rparr>)"
      using enqueue [of ?r cells] Suc.prems(2) fresh by simp
    moreover have "enqueue_reveal (ar_client ?r) n =
                   (ar_client r)\<lparr>c_pending := c_pending (ar_client r) @ [ar_next r..<Suc n]\<rparr>"
      using fresh le by (simp add: enqueue_reveal_def)
    ultimately show ?thesis
      using run by (simp add: rtranclp.rtrancl_into_rtrancl)
  qed
qed

text \<open>A shift of cell \<open>k\<close> followed by its send: the request carries the client's game id,
  read after the delay.\<close>

lemma auto_round_shift_send:
  assumes gst: "c_game_id st = Some gid" and kn: "k < n"
  shows "(auto_round_step cells)\<^sup>*\<^sup>* (round_at h p g st k n)
           ((round_at h p g st k n)\<lparr>ar_client := st\<lparr>c_opened := [0..<k], c_pending := [Suc k..<n]\<rparr>,
              ar_inflight := Requesting (Some gid) k\<rparr>)"
proof -
  let ?rd = "(round_at h p g st k n)\<lparr>ar_client := st\<lparr>c_opened := [0..<k], c_pending := [Suc k..<n]\<rparr>,
               ar_inflight := Delaying k\<rparr>"
  have "auto_round_step cells (round_at h p g st k n) ?rd"
    using shift [of "round_at h p g st k n" k "[Suc k..<n]" cells] kn
    by (simp add: round_at_def upt_conv_Cons)
  moreover have "auto_round_step cells ?rd (?rd\<lparr>ar_inflight := Requesting (Some gid) k\<rparr>)"
    using send [of ?rd k cells] gst by simp
  ultimately show ?thesis
    by (simp add: converse_rtranclp_into_rtranclp)
qed

text \<open>A round starts at \<open>round_at\<close> with nothing answered and nothing queued.\<close>

lemma auto_round_init_at:
  assumes lk: "lookup_game h gid = Some (p, g)" and op: "opened g = []"
    and st: "c_opened st = []" "c_pending st = []"
  shows "auto_round_init h st = round_at h p g st 0 0"
proof -
  have "g\<lparr>opened := [0..<0]\<rparr> = g"
    using op by (cases g) simp
  moreover have "h ! p = g"
    using lk by (simp add: lookup_game_iff)
  ultimately have "h[p := g\<lparr>opened := [0..<0]\<rparr>] = h"
    by (metis list_update_id)
  moreover have "st\<lparr>c_opened := [0..<0], c_pending := [0..<0]\<rparr> = st"
    using st by (cases st) simp
  ultimately show ?thesis
    by (simp add: auto_round_init_def round_at_def)
qed

text \<open>The answer to the request for the last cell, when it is the only bomb, whenever it
  arrives: the old game's full list and a disabled cashout button.\<close>

lemma reveal_reply_last_bomb:
  assumes l: "lookup_game h' gid = Some (q, g\<lparr>opened := [0..<total_cells g - 1]\<rparr>)"
    and nf: "\<not> finished g" and lastb: "bombs_positions g = [total_cells g - 1]"
    and t: "0 < total_cells g"
  shows "reveal_reply (Some gid) h' st' (total_cells g - 1) =
           (st'\<lparr>c_opened := [0..<total_cells g], c_cashout_disabled := True\<rparr>,
            h'[q := g\<lparr>opened := [0..<total_cells g], finished := True, result := Lost\<rparr>])"
proof -
  have u: "[0..<total_cells g - 1] @ [total_cells g - 1] = [0..<total_cells g]"
    using t by (metis Suc_diff_1 upt_Suc_append zero_le)
  show ?thesis
    using reveal_cell_bomb [OF l] nf t lastb u by (simp add: reveal_reply_def)
qed

text \<open>Below the lowest bomb, each send and its answer open the next cell.\<close>

lemma auto_round_reveal_prefix:
  assumes lk: "lookup_game h gid = Some (p, g)" and nf: "\<not> finished g" and inv: "game_inv g"
    and ne: "bombs_positions g \<noteq> []" and gst: "c_game_id st = Some gid"
    and km: "k \<le> m" and mb: "m \<le> hd (bombs_positions g)" and mn: "m \<le> n" and nc: "n \<le> total_cells g"
  shows "(auto_round_step (total_cells g))\<^sup>*\<^sup>* (round_at h p g st k n) (round_at h p g st m n)"
  using km mb mn
proof (induction m)
  case 0
  then show ?case by simp
next
  case (Suc m)
  show ?case
  proof (cases "k = Suc m")
    case True
    then show ?thesis by simp
  next
    case False
    let ?b = "hd (bombs_positions g)"
    have run: "(auto_round_step (total_cells g))\<^sup>*\<^sup>* (round_at h p g st k n) (round_at h p g st m n)"
      using Suc False by simp
    have mn': "m < n" and mb': "m < ?b"
      using Suc.prems by simp_all
    let ?r1 = "(round_at h p g st m n)\<lparr>ar_client := st\<lparr>c_opened := [0..<m], c_pending := [Suc m..<n]\<rparr>,
                 ar_inflight := Requesting (Some gid) m\<rparr>"
    have s1: "(auto_round_step (total_cells g))\<^sup>*\<^sup>* (round_at h p g st m n) ?r1"
      by (rule auto_round_shift_send [OF gst mn'])
    have hk: "ar_hist ?r1 = h[p := (if m \<le> ?b then g\<lparr>opened := [0..<m]\<rparr>
                 else g\<lparr>opened := [0..<Suc ?b], finished := True, result := Lost\<rparr>)]"
      using mb' by (simp add: round_at_def)
    have kl: "m < total_cells g"
      using mn' nc by simp
    have o: "c_opened (ar_client ?r1) = [0..<min m (Suc ?b)]"
      "c_cashout_disabled (ar_client ?r1) = (c_cashout_disabled st \<or> ?b < m)"
      using mb' by simp_all
    note rr = round_reply [OF lk nf inv ne kl hk o]
    have "auto_round_step (total_cells g) ?r1 (round_at h p g st (Suc m) n)"
    proof -
      have "round_at h p g st (Suc m) n =
            ?r1\<lparr>ar_hist := snd (reveal_reply (Some gid) (ar_hist ?r1) (ar_client ?r1) m),
                ar_client := fst (reveal_reply (Some gid) (ar_hist ?r1) (ar_client ?r1) m),
                ar_inflight := Idle,
                ar_alerts := ar_alerts ?r1 + (if reveal_refused (Some gid) (ar_hist ?r1) m then 1 else 0)\<rparr>"
        using rr mb' by (simp add: round_at_def)
      then show ?thesis
        using reply [of ?r1 "Some gid" m "total_cells g"] by simp
    qed
    then show ?thesis
      using run s1 by (meson rtranclp.rtrancl_into_rtrancl rtranclp_trans)
  qed
qed


text \<open>C22: whatever the order of the events (mode \<open>fast\<close>, mode \<open>enjoy\<close>, any timing), a
  round of auto mode on a fresh game that has run to its end with nothing in flight has
  revealed the cells \<open>0, 1, ...\<close> up to the lowest bomb \<open>b\<close> and lost the game there; the
  client's state is the one it started with but for \<open>state.opened = [0..b]\<close> and a disabled
  cashout button, and each of the other \<open>total - (b + 1)\<close> cells was requested and refused
  with an alert. Auto mode never cashes out.\<close>

theorem auto_round_any_interleaving_loses:
  assumes lk: "lookup_game h gid = Some (p, g)" and nf: "\<not> finished g" and op: "opened g = []"
    and inv: "game_inv g" and ne: "bombs_positions g \<noteq> []"
    and st: "c_game_id st = Some gid" "c_opened st = []" "c_pending st = []"
    and run: "(auto_round_step (total_cells g))\<^sup>*\<^sup>* (auto_round_init h st) r"
    and over: "auto_round_over (total_cells g) r" and idle: "ar_inflight r = Idle"
  shows "ar_hist r = h[p := g\<lparr>opened := [0..<Suc (hd (bombs_positions g))], finished := True,
                              result := Lost\<rparr>] \<and>
         ar_client r = st\<lparr>c_opened := [0..<Suc (hd (bombs_positions g))], c_cashout_disabled := True\<rparr> \<and>
         ar_alerts r = total_cells g - Suc (hd (bombs_positions g))"
proof -
  let ?b = "hd (bombs_positions g)"
  have "round_inv h p g gid st r"
    using run
  proof (induction rule: rtranclp_induct)
    case base
    show ?case using round_inv_init [OF lk op st(2,3)] .
  next
    case (step r r')
    then show ?case using round_inv_step [OF lk nf inv ne st(1)] by blast
  qed
  then obtain k where k: "k \<le> ar_next r"
    and hk: "ar_hist r = h[p := (if k \<le> ?b then g\<lparr>opened := [0..<k]\<rparr>
                   else g\<lparr>opened := [0..<Suc ?b], finished := True, result := Lost\<rparr>)]"
    and ck: "ar_client r = st\<lparr>c_opened := [0..<min k (Suc ?b)], c_pending := [k..<ar_next r],
                   c_cashout_disabled := (c_cashout_disabled st \<or> ?b < k)\<rparr>"
    and ak: "ar_alerts r = k - Suc ?b"
    unfolding round_inv_def using idle by auto
  have n: "ar_next r = total_cells g" "c_pending (ar_client r) = []"
    using over by (simp_all add: auto_round_over_def)
  have bt: "?b < total_cells g"
    using inv hd_in_set [OF ne] by (auto simp: game_inv_def)
  have kt: "k = total_cells g"
    using n k ck bt by simp
  have "ar_client r = st\<lparr>c_opened := [0..<Suc ?b], c_cashout_disabled := True\<rparr>"
    using ck kt bt n st(3) by (cases st) simp
  then show ?thesis
    using hk ak kt bt by simp
qed

theorem auto_round_any_interleaving_loses_witness:
  "\<exists>r. (auto_round_step 4)\<^sup>*\<^sup>*
          (auto_round_init [\<lparr>game_id = ''g'', created_at = '''', size = 2, bombs = Num 1,
             total_cells = 4, client_seed = ''c'', server_seed = ''s'', nonce = 1, bet = Num 0,
             bombs_positions = [1], opened = [], finished = False, result = NoResult,
             payout_multiplier = None\<rparr>] (client_init\<lparr>c_game_id := Some ''g''\<rparr>)) r \<and>
        auto_round_over 4 r \<and> ar_inflight r = Idle \<and>
        c_opened (ar_client r) = [0, 1] \<and> ar_alerts r = 2"
proof -
  define g0 where "g0 = \<lparr>game_id = ''g'', created_at = '''', size = 2, bombs = Num 1,
             total_cells = 4, client_seed = ''c'', server_seed = ''s'', nonce = 1, bet = Num 0,
             bombs_positions = [1::nat], opened = [], finished = False, result = NoResult,
             payout_multiplier = None\<rparr>"
  let ?st = "client_init\<lparr>c_game_id := Some ''g''\<rparr>"
  have lk: "lookup_game [g0] ''g'' = Some (0, g0)"
    by (simp add: lookup_game_def g0_def)
  have inv: "game_inv g0"
    by (simp add: game_inv_def g0_def)
  obtain r where run: "(auto_round_step (total_cells g0))\<^sup>*\<^sup>* (auto_round_init [g0] ?st) r"
      and over: "auto_round_over (total_cells g0) r" and idle: "ar_inflight r = Idle"
    using auto_round_progress [of "auto_round_init [g0] ?st" "total_cells g0"]
    by (auto simp: auto_round_init_def)
  have "ar_client r = ?st\<lparr>c_opened := [0..<Suc (hd (bombs_positions g0))], c_cashout_disabled := True\<rparr> \<and>
        ar_alerts r = total_cells g0 - Suc (hd (bombs_positions g0))"
    using auto_round_any_interleaving_loses [OF lk _ _ inv _ _ _ _ run over idle]
    by (simp add: g0_def client_init_def)
  then show ?thesis
    using run over idle by (intro exI [of _ r]) (simp add: g0_def upt_rec)
qed

text \<open>C28: every interleaving of a round ends: the events of the enqueue loop, of
  \<open>processQueue\<close> (shift and send) and of the answers admit no infinite sequence (the
  measure \<open>4 (total - i) + 3 |queue| + w\<close> of \<open>auto_round_step_measure\<close> decreases at each
  event). With
  \<open>auto_round_progress\<close> (a state without successor is the end of the round), the wait of
  line 227 always returns.\<close>

theorem auto_round_terminates: "wfp (\<lambda>r' r. auto_round_step cells r r')"
  unfolding wfp_def
proof (rule wf_subset [OF wf_measure [of "\<lambda>r. 4 * (cells - ar_next r) +
          3 * length (c_pending (ar_client r)) + stage_weight (ar_inflight r)"]])
  show "{(r', r). auto_round_step cells r r'} \<subseteq> measure (\<lambda>r. 4 * (cells - ar_next r) +
          3 * length (c_pending (ar_client r)) + stage_weight (ar_inflight r))"
    using auto_round_step_measure by auto
qed


text \<open>C14: the wait of line 227 does not wait for the answer in flight. In a round on a fresh
  game whose only bomb is the last cell, the round can end (the loop over the cells done, the
  queue empty) while the request for that last cell is still in flight: the bookkeeping of
  lines 229--236 then sees its cell unopened and the cashout button enabled. When that answer
  arrives, whatever the client holds by then (after the next iteration's \<open>startGame\<close>, a
  new game), \<open>revealSingle\<close> overwrites \<open>state.opened\<close> with the old game's full list and
  disables the cashout button.\<close>

theorem auto_round_ends_before_last_answer:
  assumes lk: "lookup_game h gid = Some (p, g)" and nf: "\<not> finished g" and op: "opened g = []"
    and inv: "game_inv g" and lastb: "bombs_positions g = [total_cells g - 1]"
    and st: "c_game_id st = Some gid" "c_opened st = []" "c_pending st = []"
  shows "\<exists>r. (auto_round_step (total_cells g))\<^sup>*\<^sup>* (auto_round_init h st) r \<and>
            auto_round_over (total_cells g) r \<and> ar_inflight r = Requesting (Some gid) (total_cells g - 1) \<and>
            ar_hist r = h[p := g\<lparr>opened := [0..<total_cells g - 1]\<rparr>] \<and>
            ar_client r = st\<lparr>c_opened := [0..<total_cells g - 1]\<rparr> \<and>
            (\<forall>h' st' q. lookup_game h' gid = Some (q, g\<lparr>opened := [0..<total_cells g - 1]\<rparr>) \<longrightarrow>
               reveal_reply (Some gid) h' st' (total_cells g - 1) =
                 (st'\<lparr>c_opened := [0..<total_cells g], c_cashout_disabled := True\<rparr>,
                  h'[q := g\<lparr>opened := [0..<total_cells g], finished := True, result := Lost\<rparr>]))"
proof -
  let ?t = "total_cells g"
  have ne: "bombs_positions g \<noteq> []" and b: "hd (bombs_positions g) = ?t - 1"
    using lastb by simp_all
  have t: "0 < ?t"
    using inv lastb by (auto simp: game_inv_def)
  have i0: "auto_round_init h st = round_at h p g st 0 0"
    by (rule auto_round_init_at [OF lk op st(2,3)])
  have r1: "(auto_round_step ?t)\<^sup>*\<^sup>* (round_at h p g st 0 0) (round_at h p g st 0 ?t)"
    using auto_round_enqueue_all [of "round_at h p g st 0 0" ?t ?t] by (simp add: round_at_def)
  have r2: "(auto_round_step ?t)\<^sup>*\<^sup>* (round_at h p g st 0 ?t) (round_at h p g st (?t - 1) ?t)"
    using auto_round_reveal_prefix [OF lk nf inv ne st(1), of 0 "?t - 1" ?t] b by simp
  let ?r = "(round_at h p g st (?t - 1) ?t)\<lparr>ar_client := st\<lparr>c_opened := [0..<?t - 1], c_pending := []\<rparr>,
               ar_inflight := Requesting (Some gid) (?t - 1)\<rparr>"
  have r3: "(auto_round_step ?t)\<^sup>*\<^sup>* (round_at h p g st (?t - 1) ?t) ?r"
    using auto_round_shift_send [OF st(1), of "?t - 1" ?t ?t h p g] t by simp
  have "st\<lparr>c_opened := [0..<?t - 1], c_pending := []\<rparr> = st\<lparr>c_opened := [0..<?t - 1]\<rparr>"
    using st(3) by (cases st) simp
  moreover have "(auto_round_step ?t)\<^sup>*\<^sup>* (auto_round_init h st) ?r"
    using i0 r1 r2 r3 by (metis rtranclp_trans)
  ultimately show ?thesis
    using reveal_reply_last_bomb [OF _ nf lastb t] st(3)
    by (intro exI [of _ ?r]) (auto simp: round_at_def auto_round_over_def)
qed


theorem auto_round_ends_before_last_answer_witness:
  "\<exists>r. (auto_round_step 4)\<^sup>*\<^sup>*
          (auto_round_init [\<lparr>game_id = ''g'', created_at = '''', size = 2, bombs = Num 1,
             total_cells = 4, client_seed = ''c'', server_seed = ''s'', nonce = 1, bet = Num 0,
             bombs_positions = [3], opened = [], finished = False, result = NoResult,
             payout_multiplier = None\<rparr>]
             (client_init\<lparr>c_game_id := Some ''g'', c_size := Num 2, c_bombs := Num 1,
                c_cashout_disabled := False\<rparr>)) r \<and>
        auto_round_over 4 r \<and> ar_inflight r = Requesting (Some ''g'') 3 \<and>
        (let st1 = auto_round_end (ar_client r) (c_cashout_disabled (ar_client r));
             sh2 = auto_round_begin (\<lambda>_ _. ''00'')
                     \<lparr>env_fetch = FetchFailed, env_now_ms = 0, env_now_iso = ''t'', env_uuid = ''g2''\<rparr>
                     (ar_hist r) st1 (Num 2) (Num 1) (Num 1) ''abc'' ''r'';
             st3 = fst (reveal_reply (Some ''g'') (snd sh2) (fst sh2) 3)
         in c_rounds_done st1 = 1 \<and> c_game_id st3 = Some ''g2'' \<and>
            map_option (opened \<circ> snd) (lookup_game (snd sh2) ''g2'') = Some [] \<and>
            c_opened st3 = [0, 1, 2, 3] \<and> c_cashout_disabled st3 \<and> auto_targets 4 (c_opened st3) = [])"
proof -
  define g0 where "g0 = \<lparr>game_id = ''g'', created_at = '''', size = 2, bombs = Num 1,
             total_cells = 4, client_seed = ''c'', server_seed = ''s'', nonce = 1, bet = Num 0,
             bombs_positions = [3::nat], opened = [], finished = False, result = NoResult,
             payout_multiplier = None\<rparr>"
  define st0 where "st0 = client_init\<lparr>c_game_id := Some ''g'', c_size := Num 2, c_bombs := Num 1,
                c_cashout_disabled := False\<rparr>"
  define env where "env = \<lparr>env_fetch = FetchFailed, env_now_ms = 0, env_now_iso = ''t'', env_uuid = ''g2''\<rparr>"
  have lk: "lookup_game [g0] ''g'' = Some (0, g0)"
    by (simp add: lookup_game_def g0_def)
  have inv: "game_inv g0"
    by (simp add: game_inv_def g0_def)
  obtain r where run: "(auto_round_step (total_cells g0))\<^sup>*\<^sup>* (auto_round_init [g0] st0) r"
      and over: "auto_round_over (total_cells g0) r"
      and fl: "ar_inflight r = Requesting (Some ''g'') (total_cells g0 - 1)"
      and hr: "ar_hist r = [g0][0 := g0\<lparr>opened := [0..<total_cells g0 - 1]\<rparr>]"
      and cr: "ar_client r = st0\<lparr>c_opened := [0..<total_cells g0 - 1]\<rparr>"
      and late: "\<forall>h' (st' :: client_app) q. lookup_game h' ''g'' = Some (q, g0\<lparr>opened := [0..<total_cells g0 - 1]\<rparr>) \<longrightarrow>
               reveal_reply (Some ''g'') h' st' (total_cells g0 - 1) =
                 (st'\<lparr>c_opened := [0..<total_cells g0], c_cashout_disabled := True\<rparr>,
                  h'[q := g0\<lparr>opened := [0..<total_cells g0], finished := True, result := Lost\<rparr>])"
  proof -
    have g: "\<not> finished g0" "opened g0 = []" "bombs_positions g0 = [total_cells g0 - 1]"
      by (simp_all add: g0_def)
    have s: "c_game_id st0 = Some ''g''" "c_opened st0 = []" "c_pending st0 = []"
      by (simp_all add: st0_def client_init_def)
    show thesis
      using auto_round_ends_before_last_answer [OF lk g(1,2) inv g(3) s] that by blast
  qed
  let ?g1 = "g0\<lparr>opened := [0, 1, 2]\<rparr>"
  have t: "total_cells g0 = 4"
    by (simp add: g0_def)
  have hr': "ar_hist r = [?g1]"
    using hr by (simp add: t upt_rec)
  let ?st1 = "st0\<lparr>c_opened := [0, 1, 2], c_rounds_done := 1, c_game_id := None\<rparr>"
  have e: "auto_round_end (ar_client r) (c_cashout_disabled (ar_client r)) = ?st1"
    using cr t by (simp add: auto_round_end_def st0_def client_init_def upt_rec)
  obtain st2 g2 where
      sg: "auto_round_begin (\<lambda>_ _. ''00'') env [?g1] ?st1 (Num 2) (Num 1) (Num 1) ''abc'' ''r'' =
             (st2, [?g1, g2])"
      and g2: "game_id g2 = ''g2''" "opened g2 = []" "c_game_id st2 = Some ''g2''"
  proof -
    have "\<exists>st2 g2. auto_round_begin (\<lambda>_ _. ''00'') env [?g1] ?st1 (Num 2) (Num 1) (Num 1) ''abc'' ''r'' =
             (st2, [?g1, g2]) \<and> game_id g2 = ''g2'' \<and> opened g2 = [] \<and> c_game_id st2 = Some ''g2''"
      by (simp add: auto_round_begin_def auto_needs_game_def client_start_game_def client_start_answer_def
          client_precheck_fails_def client_start_request_def json_number_arg_def start_game_def Let_def
          client_seed_missing_def js_nat_def env_def g0_def st0_def client_init_def)
    then show thesis
      using that by blast
  qed
  have l1: "lookup_game [?g1, g2] ''g'' = Some (0, g0\<lparr>opened := [0..<total_cells g0 - 1]\<rparr>)"
    by (simp add: lookup_game_def g0_def upt_rec)
  have l2: "lookup_game [?g1, g2] ''g2'' = Some (1, g2)"
    using g2 by (simp add: lookup_game_def g0_def)
  have st3: "fst (reveal_reply (Some ''g'') [?g1, g2] st2 3) =
               st2\<lparr>c_opened := [0..<4], c_cashout_disabled := True\<rparr>"
    using late [rule_format, OF l1, of st2] t by simp
  have "\<exists>r. (auto_round_step 4)\<^sup>*\<^sup>* (auto_round_init [g0] st0) r \<and>
        auto_round_over 4 r \<and> ar_inflight r = Requesting (Some ''g'') 3 \<and>
        (let st1 = auto_round_end (ar_client r) (c_cashout_disabled (ar_client r));
             sh2 = auto_round_begin (\<lambda>_ _. ''00'') env (ar_hist r) st1 (Num 2) (Num 1) (Num 1) ''abc'' ''r'';
             st3 = fst (reveal_reply (Some ''g'') (snd sh2) (fst sh2) 3)
         in c_rounds_done st1 = 1 \<and> c_game_id st3 = Some ''g2'' \<and>
            map_option (opened \<circ> snd) (lookup_game (snd sh2) ''g2'') = Some [] \<and>
            c_opened st3 = [0, 1, 2, 3] \<and> c_cashout_disabled st3 \<and> auto_targets 4 (c_opened st3) = [])"
    using run over fl e sg l2 st3 g2 t
    by (intro exI [of _ r]) (simp add: hr' Let_def auto_targets_def upt_rec)
  then show ?thesis
    by (simp only: g0_def st0_def env_def)
qed

end
