(* ===== verification/ClientView.thy ===== *)
theory ClientView
  imports ClientApp
begin

text \<open>
  The page of \<open>src/public/app.js\<close>: the DOM the handlers write and the module variables
  besides \<open>state\<close>. \<open>page\<close> holds the grid (one \<open>cell_dom\<close> per \<open>.cell\<close> element of
  \<open>#gridWrap\<close>: its classes \<open>opened\<close> and \<open>bomb\<close>, its text and whether it still has
  the click listener of \<open>buildGrid\<close>), the meta fields, the counters, the multiplier, the
  spinner, the verify button, the history list, the open verify modals, the balance and
  \<open>autoRunning\<close>. Each handler's effect on the page is a function next to the one on the
  state in theory \<open>ClientApp\<close>: \<open>client_start_page\<close> (\<open>startGame\<close>), \<open>reveal_page\<close>
  (\<open>revealSingle\<close>), \<open>process_pending_page\<close> (\<open>processQueue\<close> with both),
  \<open>cashout_page\<close>, \<open>verify_page\<close> and \<open>close_modal\<close>, \<open>load_history\<close>, \<open>deposit\<close>, \<open>withdraw\<close>,
  \<open>start_auto_head\<close> and \<open>stop_auto\<close>. Emoji and styles are not modelled: a cell's
  text is one of three values, and the text \<open>toFixed(4)\<close> gives the multiplier is kept as
  the number it prints (\<open>js_to_fixed4\<close>).
\<close>

section \<open>Definitions\<close>

datatype cell_text = NoText | GemText | BombText

record cell_dom =
  cd_opened :: bool
  cd_bomb :: bool
  cd_text :: cell_text
  cd_listener :: bool

record page =
  pg_grid :: "cell_dom list"
  pg_columns :: jsnum
  pg_meta_game :: string
  pg_meta_nonce :: string
  pg_meta_seed :: string
  pg_pending_count :: nat
  pg_opened_count :: nat
  pg_multiplier :: jsnum
  pg_spinner :: bool
  pg_verify_disabled :: bool
  pg_history :: "game_summary list"
  pg_modals :: "disclosure list"
  pg_balance :: jsnum
  pg_auto_running :: bool

text \<open>JavaScript truthiness of a number and of a string.\<close>

definition js_truthy :: "jsnum \<Rightarrow> bool" where
  "js_truthy x = (case x of Num q \<Rightarrow> q \<noteq> 0 | NaN \<Rightarrow> False)"

definition or_dash :: "string \<Rightarrow> string" where
  "or_dash s = (if s = [] then ''-'' else s)"

text \<open>\<open>setMeta(meta)\<close> (lines 25--29) with the answer of \<open>/api/start\<close>.\<close>

definition set_meta :: "start_response \<Rightarrow> page \<Rightarrow> page" where
  "set_meta j pg =
     pg\<lparr>pg_meta_game := or_dash (started_id j),
        pg_meta_nonce := (if started_nonce j = 0 then ''-'' else nat_to_string (started_nonce j)),
        pg_meta_seed := or_dash (server_seed_public j)\<rparr>"

text \<open>\<open>buildGrid(size)\<close> (lines 31--44): \<open>size * size\<close> fresh cells with a listener each.\<close>

definition fresh_cell :: cell_dom where
  "fresh_cell = \<lparr>cd_opened = False, cd_bomb = False, cd_text = NoText, cd_listener = True\<rparr>"

definition build_grid :: "jsnum \<Rightarrow> page \<Rightarrow> page" where
  "build_grid sz pg =
     pg\<lparr>pg_grid := replicate (js_count_below (js_mul sz sz)) fresh_cell, pg_columns := sz\<rparr>"

text \<open>\<open>updateCounts()\<close> (lines 67--70).\<close>

definition update_counts :: "'a client_app_scheme \<Rightarrow> page \<Rightarrow> page" where
  "update_counts st pg =
     pg\<lparr>pg_pending_count := length (c_pending st), pg_opened_count := length (c_opened st)\<rparr>"

text \<open>\<open>startGame()\<close> on the page (lines 46--65): nothing when its own check refuses (the
  alert comes before \<open>showSpinner\<close>); on an error answer \<open>return alert(...)\<close> leaves the
  try block before \<open>hideSpinner()\<close>, so the spinner stays; on success the meta fields, a
  new grid, the verify button, the counters, and the spinner hidden.\<close>

definition client_start_page ::
  "hmac_sha512_hex \<Rightarrow> start_env \<Rightarrow> history \<Rightarrow> client_app \<Rightarrow> page \<Rightarrow>
   jsnum \<Rightarrow> jsnum \<Rightarrow> jsnum \<Rightarrow> string \<Rightarrow> string \<Rightarrow> page" where
  "client_start_page hmac env h st pg sz bombsN betN seedInput randomSeed =
     (let clientSeed = (if seedInput = [] then randomSeed else seedInput);
          st' = fst (client_start_game hmac env h st sz bombsN betN seedInput randomSeed)
      in if client_precheck_fails sz bombsN then pg
         else
           (case client_start_answer hmac env h sz bombsN betN clientSeed of
              None \<Rightarrow> pg\<lparr>pg_spinner := True\<rparr>
            | Some (j, _) \<Rightarrow>
                (update_counts st' (build_grid sz (set_meta j pg)))\<lparr>pg_verify_disabled := False,
                   pg_spinner := False\<rparr>))"

text \<open>\<open>applyCellState(index, isBomb)\<close> (lines 113--119): no element for an index outside
  the grid; else the cell gets the class \<open>opened\<close>, its icon, and the class \<open>bomb\<close> for a
  bomb.\<close>

definition apply_cell_state :: "nat \<Rightarrow> bool \<Rightarrow> page \<Rightarrow> page" where
  "apply_cell_state index isBomb pg =
     (if index < length (pg_grid pg)
      then pg\<lparr>pg_grid := (pg_grid pg)[index := (pg_grid pg ! index)\<lparr>cd_opened := True,
                 cd_text := (if isBomb then BombText else GemText),
                 cd_bomb := (cd_bomb (pg_grid pg ! index) \<or> isBomb)\<rparr>]\<rparr>
      else pg)"

text \<open>\<open>disableGrid()\<close> (lines 121--123): every cell is replaced by \<open>cloneNode(true)\<close>,
  which copies classes and text but not event listeners.\<close>

definition disable_grid :: "page \<Rightarrow> page" where
  "disable_grid pg = pg\<lparr>pg_grid := map (\<lambda>c. c\<lparr>cd_listener := False\<rparr>) (pg_grid pg)\<rparr>"

text \<open>\<open>format(n)\<close> (line 23) read back by \<open>Number(...)\<close>: \<open>toFixed(4)\<close>, as
  \<open>js_to_fixed6\<close> of theory \<open>Prelude\<close> with four decimals.\<close>

definition round4 :: "rat \<Rightarrow> rat" where
  "round4 q = of_int \<lfloor>q * 10000 + 1 / 2\<rfloor> / 10000"

fun js_to_fixed4 :: "jsnum \<Rightarrow> jsnum" where
  "js_to_fixed4 (Num q) =
     (if \<bar>q\<bar> \<ge> 10 ^ 21 then Num q
      else if q < 0 then Num (- round4 (- q)) else Num (round4 q))"
| "js_to_fixed4 NaN = NaN"

text \<open>\<open>revealSingle(index)\<close> on the page (lines 94--111), for the game id the request
  carried: an error hides the spinner and returns; an answer marks the cell, shows the
  multiplier as \<open>Number(j.multiplier).toFixed(4)\<close> (\<open>'0'\<close> when it is falsy, line 102),
  disables the grid for a bomb, hides the spinner and
  updates the counters from the new state.\<close>

definition reveal_page ::
  "string option \<Rightarrow> history \<Rightarrow> client_app \<Rightarrow> page \<Rightarrow> nat \<Rightarrow> page" where
  "reveal_page gid0 h st pg index =
     (case gid0 of
        None \<Rightarrow> pg\<lparr>pg_spinner := False\<rparr>
      | Some gid \<Rightarrow>
          (case reveal_cell h gid (Num (of_nat index)) of
             Inl _ \<Rightarrow> pg\<lparr>pg_spinner := False\<rparr>
           | Inr (j, _) \<Rightarrow>
               (let pg1 = (apply_cell_state index (is_bomb j) pg)\<lparr>pg_multiplier :=
                            (if js_truthy (multiplier j) then js_to_fixed4 (multiplier j) else Num 0)\<rparr>;
                    pg2 = (if is_bomb j then disable_grid pg1 else pg1)
                in update_counts (fst (reveal_reply gid0 h st index)) (pg2\<lparr>pg_spinner := False\<rparr>))))"

text \<open>\<open>processQueue()\<close> (lines 80--92) on the state and the page: shift, update the
  counters, reveal.\<close>

function process_pending_page :: "history \<Rightarrow> client_app \<Rightarrow> page \<Rightarrow> client_app \<times> page \<times> history" where
  "process_pending_page h st pg =
     (case c_pending st of
        [] \<Rightarrow> (st, pg, h)
      | idx # queue \<Rightarrow>
          (let st0 = st\<lparr>c_pending := queue\<rparr>;
               pg' = reveal_page (c_game_id st0) h st0 (update_counts st0 pg) idx;
               (st', h') = reveal_reply (c_game_id st0) h st0 idx
           in process_pending_page h' st' pg'))"
  by pat_completeness auto
termination
  by (relation "measure (\<lambda>(h, st, pg). length (c_pending st))")
    (auto simp: prod_eq_iff dest!: sym [of "reveal_reply _ _ _ _"])

declare process_pending_page.simps [simp del]

text \<open>A click on cell \<open>index\<close> (the listener of line 41) reaches \<open>onCellClick\<close> only
  while the cell still has its listener.\<close>

definition grid_click :: "client_app \<Rightarrow> page \<Rightarrow> nat \<Rightarrow> client_app" where
  "grid_click st pg index =
     (if index < length (pg_grid pg) \<and> cd_listener (pg_grid pg ! index)
      then on_cell_click st index else st)"

text \<open>\<open>cashout()\<close> on the page (lines 130--141): on success the grid is disabled and the
  spinner hidden; an error answer leaves the spinner shown (\<open>return alert(...)\<close>).\<close>

definition cashout_page :: "history \<Rightarrow> client_app \<Rightarrow> page \<Rightarrow> page" where
  "cashout_page h st pg =
     (case c_game_id st of
        None \<Rightarrow> pg\<lparr>pg_spinner := True\<rparr>
      | Some gid \<Rightarrow>
          (case cashout h gid of
             Inl _ \<Rightarrow> pg\<lparr>pg_spinner := True\<rparr>
           | Inr _ \<Rightarrow> (disable_grid pg)\<lparr>pg_spinner := False\<rparr>))"

text \<open>\<open>verify()\<close> on the page (lines 143--153) with \<open>openVerifyModal\<close> (lines 155--180),
  which appends a modal showing the disclosure.\<close>

definition verify_page :: "history \<Rightarrow> client_app \<Rightarrow> page \<Rightarrow> page" where
  "verify_page h st pg =
     (case c_game_id st of
        None \<Rightarrow> pg
      | Some gid \<Rightarrow>
          (case verify_game h gid of
             Inl _ \<Rightarrow> pg\<lparr>pg_spinner := True\<rparr>
           | Inr d \<Rightarrow> pg\<lparr>pg_modals := pg_modals pg @ [d], pg_spinner := False\<rparr>))"

text \<open>The close button of the \<open>k\<close>-th open modal (lines 176--178):
  \<open>document.body.removeChild(wrap)\<close> removes that modal and no other; the button is inside
  the removed element, so it cannot be clicked twice.\<close>

definition close_modal :: "nat \<Rightarrow> page \<Rightarrow> page" where
  "close_modal k pg =
     (if k < length (pg_modals pg)
      then pg\<lparr>pg_modals := take k (pg_modals pg) @ drop (Suc k) (pg_modals pg)\<rparr>
      else pg)"

text \<open>\<open>loadHistory()\<close> (lines 183--196): one row per summary of \<open>/api/history\<close>; the
  Verify button of a row sets \<open>state.gameId\<close> to the row's id and calls \<open>verify()\<close>.\<close>

definition load_history :: "history \<Rightarrow> page \<Rightarrow> page" where
  "load_history h pg = pg\<lparr>pg_history := history_summary h\<rparr>"

definition history_row_verify :: "history \<Rightarrow> client_app \<Rightarrow> page \<Rightarrow> nat \<Rightarrow> client_app \<times> page" where
  "history_row_verify h st pg k =
     (if k < length (pg_history pg)
      then (let st' = st\<lparr>c_game_id := Some (sum_id (pg_history pg ! k))\<rparr> in (st', verify_page h st' pg))
      else (st, pg))"

fun js_add :: "jsnum \<Rightarrow> jsnum \<Rightarrow> jsnum" where
  "js_add (Num a) (Num b) = Num (a + b)"
| "js_add _ _ = NaN"

fun js_max0 :: "jsnum \<Rightarrow> jsnum" where
  "js_max0 (Num a) = Num (max 0 a)"
| "js_max0 NaN = NaN"

text \<open>The deposit and withdraw buttons (lines 247--248): \<open>prompt\<close> returns a string
  (\<open>amtGiven\<close>: it is not empty or \<open>null\<close>) whose \<open>Number(amt)\<close> is \<open>amt\<close>.\<close>

definition deposit :: "bool \<Rightarrow> jsnum \<Rightarrow> page \<Rightarrow> page" where
  "deposit amtGiven amt pg =
     (if amtGiven then pg\<lparr>pg_balance := js_to_fixed4 (js_add (pg_balance pg) amt)\<rparr> else pg)"

definition withdraw :: "bool \<Rightarrow> jsnum \<Rightarrow> page \<Rightarrow> page" where
  "withdraw amtGiven amt pg =
     (if amtGiven then pg\<lparr>pg_balance := js_to_fixed4 (js_max0 (js_sub (pg_balance pg) amt))\<rparr> else pg)"

text \<open>The head of \<open>startAuto()\<close> (lines 197--204) and \<open>stopAuto()\<close> (line 242), chosen
  by the mode select's change listener (line 249).\<close>

definition start_auto_head :: "string \<Rightarrow> jsnum \<Rightarrow> client_app \<Rightarrow> page \<Rightarrow> client_app \<times> page" where
  "start_auto_head mode roundsInput st pg =
     (if mode = ''off'' then (st, pg)
      else (st\<lparr>c_auto_mode := mode, c_rounds_before_refresh := auto_rounds_setting roundsInput\<rparr>,
            pg\<lparr>pg_auto_running := True\<rparr>))"

definition stop_auto :: "client_app \<Rightarrow> page \<Rightarrow> client_app \<times> page" where
  "stop_auto st pg = (st\<lparr>c_auto_mode := ''off''\<rparr>, pg\<lparr>pg_auto_running := False\<rparr>)"

definition auto_mode_change :: "string \<Rightarrow> jsnum \<Rightarrow> client_app \<Rightarrow> page \<Rightarrow> client_app \<times> page" where
  "auto_mode_change mode roundsInput st pg =
     (if mode \<noteq> ''off'' then start_auto_head mode roundsInput st pg else stop_auto st pg)"

text \<open>The page as loaded: the page itself is not in the repository, so its initial DOM is
  taken as empty, with the spinner hidden, the verify button disabled and the balance
  \<open>bal\<close>; the script then builds a 4 x 4 grid and loads the history (lines 251--252).\<close>

definition page_blank :: "jsnum \<Rightarrow> page" where
  "page_blank bal =
     \<lparr>pg_grid = [], pg_columns = Num 0, pg_meta_game = ''-'', pg_meta_nonce = ''-'', pg_meta_seed = ''-'',
      pg_pending_count = 0, pg_opened_count = 0, pg_multiplier = Num 0, pg_spinner = False,
      pg_verify_disabled = True, pg_history = [], pg_modals = [], pg_balance = bal,
      pg_auto_running = False\<rparr>"

definition page_load :: "history \<Rightarrow> jsnum \<Rightarrow> page" where
  "page_load h bal = load_history h (build_grid (Num 4) (page_blank bal))"

text \<open>A user of the page who clicks a cell or the cashout button and waits for the
  answers before the next click: after a click on a cell, \<open>enqueueReveal\<close> updates the
  counters and \<open>processQueue\<close> runs the queue.\<close>

datatype page_action = ClickCell nat | ClickCashout

fun page_run :: "history \<Rightarrow> client_app \<Rightarrow> page \<Rightarrow> page_action list \<Rightarrow> client_app \<times> page \<times> history" where
  "page_run h st pg [] = (st, pg, h)"
| "page_run h st pg (ClickCell i # acts) =
     (let st1 = grid_click st pg i;
          (st2, pg2, h2) = process_pending_page h st1 (update_counts st1 pg)
      in page_run h2 st2 pg2 acts)"
| "page_run h st pg (ClickCashout # acts) =
     (let (st1, h1) = client_cashout h st in page_run h1 st1 (cashout_page h st pg) acts)"

text \<open>The page shows the server's game \<open>gid\<close>: the client holds its id and opened list,
  the grid has one cell per cell of the game, a cell has the class \<open>opened\<close> exactly when
  the game has it opened, the class \<open>bomb\<close> and the bomb icon exactly when it is an opened
  bomb, the gem icon when it is an opened safe cell, and its listener exactly while the
  game runs; the opened counter shows the length of the client's list.\<close>

definition shown_cell :: "game \<Rightarrow> nat \<Rightarrow> cell_dom" where
  "shown_cell g i =
     \<lparr>cd_opened = (i \<in> set (opened g)),
      cd_bomb = (i \<in> set (opened g) \<and> i \<in> set (bombs_positions g)),
      cd_text = (if i \<in> set (opened g) then if i \<in> set (bombs_positions g) then BombText else GemText
                 else NoText),
      cd_listener = (\<not> finished g)\<rparr>"

definition view_inv :: "history \<Rightarrow> string \<Rightarrow> client_app \<Rightarrow> page \<Rightarrow> bool" where
  "view_inv h gid st pg \<longleftrightarrow>
     (\<exists>p g. lookup_game h gid = Some (p, g) \<and> c_game_id st = Some gid \<and> c_opened st = opened g \<and>
        pg_grid pg = map (shown_cell g) [0..<total_cells g] \<and>
        pg_opened_count pg = length (c_opened st))"

section \<open>Lemmas\<close>

text \<open>The state and the history that \<open>processQueue\<close> computes with the page are those of
  \<open>process_pending\<close>.\<close>

lemma process_pending_page_state:
  "(case process_pending_page h st pg of (st', _, h') \<Rightarrow> (st', h')) = process_pending h st"
proof (induction h st pg rule: process_pending_page.induct)
  case (1 h st pg)
  show ?case
  proof (cases "c_pending st")
    case Nil
    then show ?thesis
      by (simp add: process_pending_page.simps [of h st pg] process_pending.simps [of h st])
  next
    case (Cons idx queue)
    obtain st' h' where
        rr: "reveal_reply (c_game_id (st\<lparr>c_pending := queue\<rparr>)) h (st\<lparr>c_pending := queue\<rparr>) idx = (st', h')"
      by (cases "reveal_reply (c_game_id (st\<lparr>c_pending := queue\<rparr>)) h (st\<lparr>c_pending := queue\<rparr>) idx")
    show ?thesis
      using "1.IH" [OF Cons refl refl rr [symmetric]] Cons rr
      by (simp add: process_pending_page.simps [of h st pg] process_pending.simps [of h st]
          reveal_single_def Let_def)
  qed
qed

lemma shown_grid_reveal:
  assumes "idx < total_cells g" and "idx \<notin> set (opened g)" and "\<not> finished g"
  shows "(map (shown_cell g) [0..<total_cells g])[idx := (map (shown_cell g) [0..<total_cells g] ! idx)
            \<lparr>cd_opened := True, cd_text := (if idx \<in> set (bombs_positions g) then BombText else GemText),
             cd_bomb := (cd_bomb (map (shown_cell g) [0..<total_cells g] ! idx) \<or>
                         idx \<in> set (bombs_positions g))\<rparr>] =
         map (shown_cell (g\<lparr>opened := opened g @ [idx]\<rparr>)) [0..<total_cells g]"
  using assms by (intro nth_equalityI) (auto simp: shown_cell_def nth_list_update)

lemma shown_grid_disable:
  "map (\<lambda>c. c\<lparr>cd_listener := False\<rparr>) (map (shown_cell g) xs) =
   map (shown_cell (g\<lparr>finished := True, result := r\<rparr>)) xs"
  by (simp add: shown_cell_def)

text \<open>One reveal of the page's game, request and answer, keeps the page in step with
  the server.\<close>

lemma view_inv_reveal:
  assumes vi: "view_inv h gid st pg"
  shows "view_inv (snd (reveal_reply (Some gid) h st idx)) gid (fst (reveal_reply (Some gid) h st idx))
           (reveal_page (Some gid) h st pg idx)"
proof -
  obtain p g where lk: "lookup_game h gid = Some (p, g)" and sg: "c_game_id st = Some gid"
      and so: "c_opened st = opened g" and gr: "pg_grid pg = map (shown_cell g) [0..<total_cells g]"
      and oc: "pg_opened_count pg = length (c_opened st)"
    using vi unfolding view_inv_def by blast
  show ?thesis
  proof (cases "reveal_cell h gid (Num (of_nat idx))")
    case (Inl e)
    then show ?thesis
      using vi by (simp add: reveal_reply_def reveal_page_def view_inv_def)
  next
    case (Inr jh)
    then obtain j h' where rc: "reveal_cell h gid (Num (of_nat idx)) = Inr (j, h')"
      by (cases jh) auto
    obtain p' g' i where "lookup_game h gid = Some (p', g')" "\<not> finished g'"
        "Num (of_nat idx) = (Num (of_nat i) :: jsnum)" "i < total_cells g'" "i \<notin> set (opened g')"
      using reveal_cell_Inr [OF rc] by blast
    then have nf: "\<not> finished g" and il: "idx < total_cells g" and io: "idx \<notin> set (opened g)"
      using lk by auto
    have gid: "game_id g = gid"
      using lk by (simp add: lookup_game_iff)
    have sh: "shown_cell g idx = map (shown_cell g) [0..<total_cells g] ! idx"
      using il by simp
    show ?thesis
    proof (cases "idx \<in> set (bombs_positions g)")
      case True
      let ?g' = "g\<lparr>opened := opened g @ [idx], finished := True, result := Lost\<rparr>"
      have r: "reveal_cell h gid (Num (of_nat idx)) =
          Inr (\<lparr>is_bomb = True, resp_opened = opened g @ [idx], multiplier = Num 0, resp_game = ?g'\<rparr>,
               h[p := ?g'])"
        using reveal_cell_bomb [OF lk nf il io True] .
      have l': "lookup_game (h[p := ?g']) gid = Some (p, ?g')"
        using lookup_game_update [OF lk] gid by simp
      have "map (\<lambda>c. c\<lparr>cd_listener := False\<rparr>) (map (shown_cell (g\<lparr>opened := opened g @ [idx]\<rparr>))
              [0..<total_cells g]) = map (shown_cell ?g') [0..<total_cells g]"
        by (simp add: shown_cell_def)
      then show ?thesis
        using r l' sg shown_grid_reveal [OF il io nf] True gr il
        by (simp add: reveal_reply_def reveal_page_def view_inv_def apply_cell_state_def
            disable_grid_def update_counts_def)
    next
      case False
      let ?g' = "g\<lparr>opened := opened g @ [idx]\<rparr>"
      have r: "reveal_cell h gid (Num (of_nat idx)) =
          Inr (\<lparr>is_bomb = False, resp_opened = opened g @ [idx],
                 multiplier = compute_multiplier (total_cells g) (bombs g) (Suc (length (opened g))),
                 resp_game = ?g'\<rparr>, h[p := ?g'])"
        using reveal_cell_safe [OF lk nf il io False] .
      have l': "lookup_game (h[p := ?g']) gid = Some (p, ?g')"
        using lookup_game_update [OF lk] gid by simp
      show ?thesis
        using r l' sg shown_grid_reveal [OF il io nf] False gr il
        by (simp add: reveal_reply_def reveal_page_def view_inv_def apply_cell_state_def
            update_counts_def)
    qed
  qed
qed


lemma view_inv_process:
  "view_inv h gid st pg \<Longrightarrow>
   (case process_pending_page h st pg of (st', pg', h') \<Rightarrow> view_inv h' gid st' pg')"
proof (induction h st pg rule: process_pending_page.induct)
  case (1 h st pg)
  show ?case
  proof (cases "c_pending st")
    case Nil
    then show ?thesis
      using "1.prems" by (simp add: process_pending_page.simps [of h st pg])
  next
    case (Cons idx queue)
    let ?st0 = "st\<lparr>c_pending := queue\<rparr>"
    have sg: "c_game_id ?st0 = Some gid"
      using "1.prems" by (auto simp: view_inv_def)
    have v0: "view_inv h gid ?st0 (update_counts ?st0 pg)"
      using "1.prems" unfolding view_inv_def update_counts_def by auto
    obtain st' h' where rr: "reveal_reply (c_game_id ?st0) h ?st0 idx = (st', h')"
      by (cases "reveal_reply (c_game_id ?st0) h ?st0 idx")
    have "view_inv h' gid st' (reveal_page (c_game_id ?st0) h ?st0 (update_counts ?st0 pg) idx)"
      using view_inv_reveal [OF v0, of idx] rr sg by simp
    then show ?thesis
      using "1.IH" [OF Cons refl refl rr [symmetric]] Cons rr
      by (simp add: process_pending_page.simps [of h st pg] Let_def)
  qed
qed

lemma view_inv_cashout:
  assumes "view_inv h gid st pg"
  shows "view_inv (snd (client_cashout h st)) gid (fst (client_cashout h st)) (cashout_page h st pg)"
proof -
  obtain p g where lk: "lookup_game h gid = Some (p, g)" and sg: "c_game_id st = Some gid"
    using assms unfolding view_inv_def by blast
  show ?thesis
  proof (cases "finished g")
    case True
    then show ?thesis
      using assms lk sg cashout_errors(2) [OF lk True]
      by (simp add: client_cashout_def cashout_page_def view_inv_def)
  next
    case False
    have gid: "game_id g = gid"
      using lk by (simp add: lookup_game_iff)
    let ?g' = "g\<lparr>finished := True, result := Cashed,
                 payout_multiplier := Some (compute_multiplier (total_cells g) (bombs g) (length (opened g)))\<rparr>"
    have l': "lookup_game (h[p := ?g']) gid = Some (p, ?g')"
      using lookup_game_update [OF lk] gid by simp
    show ?thesis
      using assms lk sg cashout_active [OF lk False] l'
      by (auto simp: client_cashout_def cashout_page_def view_inv_def disable_grid_def shown_cell_def)
  qed
qed

lemma grid_click_keeps [simp]:
  "c_opened (grid_click st pg i) = c_opened st" "c_game_id (grid_click st pg i) = c_game_id st"
  by (simp_all add: grid_click_def on_cell_click_def enqueue_reveal_def)

lemma view_inv_click:
  "view_inv h gid st pg \<Longrightarrow> view_inv h gid (grid_click st pg i) (update_counts (grid_click st pg i) pg)"
  unfolding view_inv_def update_counts_def by auto

lemma view_inv_page_run:
  "view_inv h gid st pg \<Longrightarrow> (case page_run h st pg acts of (st', pg', h') \<Rightarrow> view_inv h' gid st' pg')"
proof (induction h st pg acts rule: page_run.induct)
  case (1 h st pg)
  then show ?case by simp
next
  case (2 h st pg i acts)
  let ?st1 = "grid_click st pg i"
  obtain st2 pg2 h2 where pp: "process_pending_page h ?st1 (update_counts ?st1 pg) = (st2, pg2, h2)"
    by (cases "process_pending_page h ?st1 (update_counts ?st1 pg)") auto
  have "view_inv h2 gid st2 pg2"
    using view_inv_process [OF view_inv_click [OF "2.prems", of i]] pp by simp
  then show ?case
    using "2.IH" [OF refl pp [symmetric] refl refl] pp by (simp add: Let_def)
next
  case (3 h st pg acts)
  obtain st1 h1 where cc: "client_cashout h st = (st1, h1)"
    by (cases "client_cashout h st")
  have "view_inv h1 gid st1 (cashout_page h st pg)"
    using view_inv_cashout [OF "3.prems"] cc by simp
  then show ?case
    using "3.IH" [OF cc [symmetric] refl] cc by simp
qed


text \<open>\<open>startGame\<close> with a valid form puts the page in step with the new game.\<close>

lemma view_inv_start:
  assumes n: "0 < n" and b: "1 \<le> b" "b < n * n" and big: "n * n < 2 ^ 32"
    and seed: "(if seedInput = [] then randomSeed else seedInput) \<noteq> []"
    and fresh: "env_uuid env \<notin> game_id ` set h"
    and run: "client_start_game hmac env h st (Num (of_nat n)) (Num (of_nat b)) betN seedInput randomSeed =
                (st1, h1)"
  shows "view_inv h1 (env_uuid env) st1
           (client_start_page hmac env h st pg (Num (of_nat n)) (Num (of_nat b)) betN seedInput randomSeed)"
proof -
  let ?cs = "if seedInput = [] then randomSeed else seedInput"
  obtain j g where sg: "start_game hmac env (client_start_request (Num (of_nat n)) (Num (of_nat b))
                          betN ?cs) h = Inr (j, h @ [g])"
      and gp: "total_cells g = n * n" "game_id g = env_uuid env" "started_id j = game_id g"
    using client_request_starts [OF n b seed big] by blast
  have g0: "opened g = []" "\<not> finished g"
    using start_game_Inr [OF sg] by auto
  have pre: "\<not> client_precheck_fails (Num (of_nat n)) (Num (of_nat b))"
  proof -
    have "\<not> (of_nat (n * n) :: rat) \<le> of_nat b"
      using b(2) by (simp only: of_nat_le_iff not_le)
    then show ?thesis
      using b(1) by (simp add: client_precheck_fails_def)
  qed
  have ans: "client_start_answer hmac env h (Num (of_nat n)) (Num (of_nat b)) betN ?cs = Some (j, h @ [g])"
    using pre sg by (simp add: client_start_answer_def)
  have "game_id g \<notin> game_id ` set h"
    using fresh gp(2) by simp
  then have lk: "lookup_game (h @ [g]) (env_uuid env) = Some (length h, g)"
    using lookup_game_fresh gp(2) by metis
  have grid: "map (shown_cell g) [0..<total_cells g] = replicate (n * n) fresh_cell"
  proof -
    have "shown_cell g = (\<lambda>i. fresh_cell)"
      using g0 by (intro ext) (simp add: shown_cell_def fresh_cell_def)
    then show ?thesis
      using gp(1) by (simp add: map_replicate_const)
  qed
  have "st1 = fst (client_start_game hmac env h st (Num (of_nat n)) (Num (of_nat b)) betN seedInput randomSeed)"
       "h1 = h @ [g]"
    using run ans by (simp_all add: client_start_game_def Let_def)
  then show ?thesis
    using ans lk grid gp g0 pre
    by (simp add: client_start_page_def client_start_game_def view_inv_def Let_def update_counts_def
        build_grid_def set_meta_def)
qed



text \<open>Closing the modal that \<open>verify()\<close> has just opened gives back the modals that
  were open before.\<close>

lemma verify_close_modal:
  "c_game_id st = Some gid \<Longrightarrow> verify_game h gid = Inr d \<Longrightarrow>
   pg_modals (close_modal (length (pg_modals pg)) (verify_page h st pg)) = pg_modals pg"
  by (simp add: verify_page_def close_modal_def)

text \<open>A refused cashout leaves the spinner shown: \<open>return alert(...)\<close> leaves the try
  block of \<open>cashout()\<close> before \<open>hideSpinner()\<close> (line 135).\<close>

lemma cashout_error_keeps_spinner:
  "c_game_id st = Some gid \<Longrightarrow> cashout h gid = Inl e \<Longrightarrow> pg_spinner (cashout_page h st pg)"
  by (simp add: cashout_page_def)

lemma round4_nonneg: "0 \<le> q \<Longrightarrow> 0 \<le> round4 q"
  by (simp add: round4_def)

text \<open>The withdraw button never shows a negative balance; a balance that is \<open>NaN\<close> stays
  \<open>NaN\<close> under every deposit and withdraw, and a deposit of a text that is not a number
  makes it \<open>NaN\<close>.\<close>

lemma withdraw_nonneg: "pg_balance (withdraw True amt pg) = Num q \<Longrightarrow> 0 \<le> q"
  by (cases "js_sub (pg_balance pg) amt")
    (auto simp: withdraw_def round4_nonneg split: if_splits)

lemma balance_NaN_sticks:
  "pg_balance pg = NaN \<Longrightarrow> pg_balance (deposit a amt pg) = NaN \<and> pg_balance (withdraw a amt pg) = NaN"
  by (simp add: deposit_def withdraw_def)

lemma deposit_NaN: "pg_balance (deposit True NaN pg) = NaN"
  by (cases "pg_balance pg") (simp_all add: deposit_def)

text \<open>C20: the page always shows the server's game. After \<open>startGame\<close> with a valid form
  (a grid below \<open>2^32\<close> cells, which \<open>/api/start\<close> can lay out) and a fresh id, and
  then any sequence of clicks on cells and on the cashout button (each
  click's queue run to its end), the client holds the game's id and opened list, the opened
  counter is its length, and every cell of the grid shows exactly what the server's game
  holds: opened or not, the bomb icon and class exactly at an opened bomb, the gem icon at an
  opened safe cell, and a click listener exactly while the game runs (a bomb or a cashout
  disables the grid).\<close>

theorem page_shows_server_game:
  assumes "0 < n" and "1 \<le> b" "b < n * n" and "n * n < 2 ^ 32"
    and "(if seedInput = [] then randomSeed else seedInput) \<noteq> []"
    and "env_uuid env \<notin> game_id ` set h"
    and "client_start_game hmac env h st (Num (of_nat n)) (Num (of_nat b)) betN seedInput randomSeed =
           (st1, h1)"
  shows "case page_run h1 st1 (client_start_page hmac env h st pg (Num (of_nat n)) (Num (of_nat b)) betN
                                 seedInput randomSeed) acts of
           (st', pg', h') \<Rightarrow> view_inv h' (env_uuid env) st' pg'"
  using view_inv_page_run [OF view_inv_start [OF assms]] .

theorem page_shows_server_game_witness:
  "case page_run (snd (client_start_game (\<lambda>_ _. ''00'')
            \<lparr>env_fetch = FetchFailed, env_now_ms = 0, env_now_iso = ''t'', env_uuid = ''g''\<rparr>
            [] client_init (Num (of_nat 2)) (Num (of_nat 1)) (Num 1) ''abc'' ''r''))
          (fst (client_start_game (\<lambda>_ _. ''00'')
            \<lparr>env_fetch = FetchFailed, env_now_ms = 0, env_now_iso = ''t'', env_uuid = ''g''\<rparr>
            [] client_init (Num (of_nat 2)) (Num (of_nat 1)) (Num 1) ''abc'' ''r''))
          (client_start_page (\<lambda>_ _. ''00'')
            \<lparr>env_fetch = FetchFailed, env_now_ms = 0, env_now_iso = ''t'', env_uuid = ''g''\<rparr>
            [] client_init (page_load [] (Num 10)) (Num (of_nat 2)) (Num (of_nat 1)) (Num 1) ''abc'' ''r'')
          [ClickCell 0, ClickCell 3, ClickCashout] of
     (st', pg', h') \<Rightarrow> view_inv h' ''g'' st' pg'"
  using page_shows_server_game [OF _ _ _ _ _ _ prod.collapse [symmetric], where n = 2 and b = 1
      and seedInput = "''abc''" and randomSeed = "''r''" and h = "[]"
      and env = "\<lparr>env_fetch = FetchFailed, env_now_ms = 0, env_now_iso = ''t'', env_uuid = ''g''\<rparr>"
      and hmac = "\<lambda>_ _. ''00''" and st = client_init and betN = "Num 1" and pg = "page_load [] (Num 10)"
      and acts = "[ClickCell 0, ClickCell 3, ClickCashout]"]
  by simp

text \<open>C25: the Verify button of a history row takes the page away from its game. While a
  game \<open>gid\<close> runs, a click on the Verify button of the row of another, finished game
  \<open>gid'\<close> sets \<open>state.gameId\<close> to \<open>gid'\<close> (line 193): from then on the cashout button and
  every cell click address \<open>gid'\<close> and are refused, the spinner stays after a cashout, and
  the running game can no longer be cashed out or played from the page.\<close>

theorem history_verify_loses_running_game:
  assumes lk: "lookup_game h gid = Some (p, g)" "\<not> finished g" and sg: "c_game_id st = Some gid"
    and row: "k < length (pg_history pg)" "sum_id (pg_history pg ! k) = gid'"
    and lk': "lookup_game h gid' = Some (q, g')" "finished g'"
    and click: "history_row_verify h st pg k = (st', pg')"
  shows "c_game_id st' = Some gid' \<and> gid' \<noteq> gid \<and>
         client_cashout h st' = (st', h) \<and> pg_spinner (cashout_page h st' pg') \<and>
         (\<forall>i. reveal_reply (c_game_id st') h st' i = (st', h) \<and> reveal_refused (c_game_id st') h i) \<and>
         lookup_game h gid = Some (p, g) \<and> \<not> finished g"
proof -
  have st': "st' = st\<lparr>c_game_id := Some gid'\<rparr>"
    using click row by (simp add: history_row_verify_def Let_def)
  have ne: "gid' \<noteq> gid"
    using lk lk' by auto
  have co: "cashout h gid' = Inl GameAlreadyFinished"
    using cashout_errors(2) [OF lk'] by simp
  have rv: "reveal_cell h gid' x = Inl GameAlreadyFinished" for x
    using reveal_cell_errors(2) [OF lk'] .
  show ?thesis
    using st' ne co rv lk
    by (simp add: client_cashout_def cashout_page_def reveal_reply_def reveal_refused_def)
qed

theorem history_verify_loses_running_game_witness:
  "c_game_id (fst (history_row_verify
      [\<lparr>game_id = ''a'', created_at = '''', size = 2, bombs = Num 1, total_cells = 4,
         client_seed = ''c'', server_seed = ''s'', nonce = 1, bet = Num 0, bombs_positions = [3],
         opened = [], finished = False, result = NoResult, payout_multiplier = None\<rparr>,
       \<lparr>game_id = ''b'', created_at = '''', size = 2, bombs = Num 1, total_cells = 4,
         client_seed = ''c'', server_seed = ''s'', nonce = 2, bet = Num 0, bombs_positions = [0],
         opened = [0], finished = True, result = Lost, payout_multiplier = None\<rparr>]
      (client_init\<lparr>c_game_id := Some ''a''\<rparr>)
      (load_history
        [\<lparr>game_id = ''a'', created_at = '''', size = 2, bombs = Num 1, total_cells = 4,
           client_seed = ''c'', server_seed = ''s'', nonce = 1, bet = Num 0, bombs_positions = [3],
           opened = [], finished = False, result = NoResult, payout_multiplier = None\<rparr>,
         \<lparr>game_id = ''b'', created_at = '''', size = 2, bombs = Num 1, total_cells = 4,
           client_seed = ''c'', server_seed = ''s'', nonce = 2, bet = Num 0, bombs_positions = [0],
           opened = [0], finished = True, result = Lost, payout_multiplier = None\<rparr>]
        (page_blank (Num 0))) 0)) = Some ''b''"
proof -
  define h0 where "h0 =
      [\<lparr>game_id = ''a'', created_at = '''', size = 2, bombs = Num 1, total_cells = 4,
         client_seed = ''c'', server_seed = ''s'', nonce = 1, bet = Num 0, bombs_positions = [3::nat],
         opened = [], finished = False, result = NoResult, payout_multiplier = None\<rparr>,
       \<lparr>game_id = ''b'', created_at = '''', size = 2, bombs = Num 1, total_cells = 4,
         client_seed = ''c'', server_seed = ''s'', nonce = 2, bet = Num 0, bombs_positions = [0],
         opened = [0], finished = True, result = Lost, payout_multiplier = None\<rparr>]"
  let ?st = "client_init\<lparr>c_game_id := Some ''a''\<rparr>"
  let ?pg = "load_history h0 (page_blank (Num 0))"
  have lk: "lookup_game h0 ''a'' = Some (0, h0 ! 0)" "\<not> finished (h0 ! 0)"
    and lk': "lookup_game h0 ''b'' = Some (1, h0 ! 1)" "finished (h0 ! 1)"
    by (simp_all add: h0_def lookup_game_def)
  have row: "0 < length (pg_history ?pg)" "sum_id (pg_history ?pg ! 0) = ''b''"
    by (simp_all add: h0_def load_history_def history_summary_def summarize_def)
  have "c_game_id (fst (history_row_verify h0 ?st ?pg 0)) = Some ''b''"
    using history_verify_loses_running_game [OF lk _ row lk' prod.collapse [symmetric]]
    by (simp add: client_init_def)
  then show ?thesis
    by (simp only: h0_def)
qed

end
