(* ===== verification/Server.thy ===== *)
theory Server
  imports Invariants
begin

text \<open>
  The one place where requests of \<open>src/server.js\<close> interleave: \<open>/api/start\<close> awaits
  \<open>fetchTrxBlockId()\<close> (line 93, up to 5 s) between its checks and the rest of its
  body, and Node runs other requests meanwhile; \<open>/api/reveal\<close> and
  \<open>/api/cashout\<close> have no await and run to completion. The handler is split at the
  await: \<open>start_checks\<close> (lines 85--91) either answers an error or yields the locals the
  continuation captures (\<open>start_ctx\<close>), and \<open>start_after_fetch\<close> (lines 93--118) is
  the continuation, which reads \<open>history.length\<close> only when it runs and answers 500
  (no game) when \<open>Array.from\<close> cannot allocate the grid.
  \<open>server_step\<close> is the event loop: a start may begin (its checks pass and it waits),
  any waiting start may resume with any fetch outcome, and reveals and cashouts run
  atomically in between, in any order.
\<close>

section \<open>Definitions\<close>

text \<open>The locals of the start handler that live across the await.\<close>

record start_ctx =
  ctx_size :: nat
  ctx_bombs :: jsnum
  ctx_total :: nat
  ctx_client_seed :: string
  ctx_bet :: jsnum

definition start_checks :: "start_request \<Rightarrow> api_error + start_ctx" where
  "start_checks req =
     (if \<not> fst (req_size req) \<or> \<not> fst (req_bombs req) \<or> client_seed_missing (req_client_seed req)
      then Inl MissingParams
      else
        (let sizeN = snd (req_size req); bombsN = snd (req_bombs req) in
         if \<not> js_is_integer sizeN \<or> js_le sizeN (Num 0) then Inl InvalidSize
         else
           (let sz = js_nat sizeN; totalCells = sz * sz in
            if js_lt bombsN (Num 1) \<or> js_le (Num (of_nat totalCells)) bombsN
            then Inl InvalidBombsCount
            else
              (case req_client_seed req of
                 None \<Rightarrow> Inl MissingParams
               | Some clientSeed \<Rightarrow>
                   Inr \<lparr>ctx_size = sz, ctx_bombs = bombsN, ctx_total = totalCells,
                        ctx_client_seed = clientSeed,
                        ctx_bet = (if fst (req_bet req) then snd (req_bet req) else Num 0)\<rparr>))))"

text \<open>The continuation (lines 93--118, with the catch of lines 119--121): the \<open>RangeError\<close>
  of \<open>Array.from\<close> for \<open>totalCells \<ge> 2^32\<close> is answered 500 and adds no game.\<close>

definition start_after_fetch ::
  "hmac_sha512_hex \<Rightarrow> start_env \<Rightarrow> start_ctx \<Rightarrow> history \<Rightarrow> api_error + (start_response \<times> history)" where
  "start_after_fetch hmac env ctx h =
     (let blockId = fetch_trx_block_id (env_fetch env);
          serverSeed = derive_server_seed blockId (env_now_ms env);
          nonce = length h + 1
      in if 2 ^ 32 \<le> ctx_total ctx then Inl ServerError
      else
     (let positions = generate_bombs hmac serverSeed (ctx_client_seed ctx) nonce (ctx_total ctx)
                        (ctx_bombs ctx);
          g = \<lparr>game_id = env_uuid env, created_at = env_now_iso env, size = ctx_size ctx,
               bombs = ctx_bombs ctx, total_cells = ctx_total ctx,
               client_seed = ctx_client_seed ctx, server_seed = serverSeed, nonce = nonce,
               bet = ctx_bet ctx, bombs_positions = positions, opened = [], finished = False,
               result = NoResult, payout_multiplier = None\<rparr>
      in Inr (\<lparr>started_id = game_id g, server_seed_public = server_seed g, started_nonce = nonce\<rparr>,
              h @ [g])))"

text \<open>The history after a start resumes: unchanged when it answered an error.\<close>

definition start_resume :: "hmac_sha512_hex \<Rightarrow> start_env \<Rightarrow> start_ctx \<Rightarrow> history \<Rightarrow> history" where
  "start_resume hmac env ctx h =
     (case start_after_fetch hmac env ctx h of Inl _ \<Rightarrow> h | Inr (_, h') \<Rightarrow> h')"

record server_state =
  hist :: history
  awaiting :: "start_ctx list"

inductive server_step :: "hmac_sha512_hex \<Rightarrow> server_state \<Rightarrow> server_state \<Rightarrow> bool"
  for hmac where
  begin_start: "start_checks req = Inr ctx \<Longrightarrow>
     server_step hmac s (s\<lparr>awaiting := awaiting s @ [ctx]\<rparr>)"
| resume_start: "i < length (awaiting s) \<Longrightarrow>
     server_step hmac s
       \<lparr>hist = (start_resume hmac env (awaiting s ! i) (hist s)),
        awaiting = take i (awaiting s) @ drop (Suc i) (awaiting s)\<rparr>"
| reveal: "reveal_cell (hist s) gid x = Inr (r, h') \<Longrightarrow> server_step hmac s (s\<lparr>hist := h'\<rparr>)"
| cash: "cashout (hist s) gid = Inr (c, h') \<Longrightarrow> server_step hmac s (s\<lparr>hist := h'\<rparr>)"

inductive server_reach :: "hmac_sha512_hex \<Rightarrow> server_state \<Rightarrow> bool" for hmac where
  boot: "server_reach hmac \<lparr>hist = [], awaiting = []\<rparr>"
| step: "server_reach hmac s \<Longrightarrow> server_step hmac s t \<Longrightarrow> server_reach hmac t"

text \<open>What holds of every state of the event loop: the history is one the atomic handlers
  produce, and every waiting start passed the checks of some request.\<close>

definition server_inv :: "hmac_sha512_hex \<Rightarrow> server_state \<Rightarrow> bool" where
  "server_inv hmac s \<longleftrightarrow>
     reachable hmac (hist s) \<and> (\<forall>ctx \<in> set (awaiting s). \<exists>req. start_checks req = Inr ctx)"

section \<open>Lemmas\<close>

lemma start_game_split:
  "start_game hmac env req h =
     (case start_checks req of
        Inl e \<Rightarrow> Inl e
      | Inr ctx \<Rightarrow> start_after_fetch hmac env ctx h)"
  by (simp add: start_game_def start_checks_def start_after_fetch_def Let_def
      split: option.splits)

lemma server_step_inv:
  assumes "server_step hmac s t" and "server_inv hmac s"
  shows "server_inv hmac t"
  using assms(1)
proof (cases rule: server_step.cases)
  case (begin_start req ctx)
  then show ?thesis using assms(2) by (auto simp: server_inv_def)
next
  case (resume_start i env)
  then have "awaiting s ! i \<in> set (awaiting s)"
    by simp
  then obtain req where req: "start_checks req = Inr (awaiting s ! i)"
    using assms(2) unfolding server_inv_def by blast
  then have sg: "start_game hmac env req (hist s) = start_after_fetch hmac env (awaiting s ! i) (hist s)"
    by (simp add: start_game_split)
  have "reachable hmac (start_resume hmac env (awaiting s ! i) (hist s))"
  proof (cases "start_after_fetch hmac env (awaiting s ! i) (hist s)")
    case (Inl e)
    then show ?thesis
      using assms(2) by (simp add: start_resume_def server_inv_def)
  next
    case (Inr rh)
    then show ?thesis
      using assms(2) sg reachable.start [of hmac "hist s" env req "fst rh" "snd rh"]
      by (cases rh) (simp add: start_resume_def server_inv_def)
  qed
  moreover have "set (take i (awaiting s) @ drop (Suc i) (awaiting s)) \<subseteq> set (awaiting s)"
    by (auto dest: in_set_takeD in_set_dropD)
  ultimately show ?thesis
    using resume_start assms(2) by (auto simp: server_inv_def)
next
  case (reveal gid x r h')
  then show ?thesis using assms(2) reachable.reveal by (auto simp: server_inv_def)
next
  case (cash gid c h')
  then show ?thesis using assms(2) reachable.cash by (auto simp: server_inv_def)
qed

lemma server_reach_inv:
  assumes "server_reach hmac s"
  shows "reachable hmac (hist s) \<and> (\<forall>ctx \<in> set (awaiting s). \<exists>req. start_checks req = Inr ctx)"
proof -
  have "server_inv hmac s"
    using assms
  proof (induction rule: server_reach.induct)
    case boot
    then show ?case by (simp add: server_inv_def reachable.empty)
  next
    case (step s t)
    show ?case by (rule server_step_inv [OF step.hyps(2) step.IH])
  qed
  then show ?thesis
    by (simp add: server_inv_def)
qed

text \<open>A run in which two starts overlap: A and B both pass their checks and wait, B's
  fetch returns first, then A's.\<close>

lemma server_reach_two_starts:
  "server_reach (\<lambda>_ _. ''00'')
     \<lparr>hist = (start_resume (\<lambda>_ _. ''00'')
                   \<lparr>env_fetch = FetchFailed, env_now_ms = 2, env_now_iso = ''t2'', env_uuid = ''a''\<rparr>
                   \<lparr>ctx_size = 2, ctx_bombs = Num 1, ctx_total = 4, ctx_client_seed = ''a'', ctx_bet = Num 0\<rparr>
                   ((start_resume (\<lambda>_ _. ''00'')
                     \<lparr>env_fetch = FetchFailed, env_now_ms = 1, env_now_iso = ''t1'', env_uuid = ''b''\<rparr>
                     \<lparr>ctx_size = 2, ctx_bombs = Num 1, ctx_total = 4, ctx_client_seed = ''b'', ctx_bet = Num 0\<rparr>
                     []))),
      awaiting = []\<rparr>"
proof -
  let ?H = "\<lambda>_ _. ''00''"
  let ?A = "\<lparr>ctx_size = 2, ctx_bombs = Num 1, ctx_total = 4, ctx_client_seed = ''a'', ctx_bet = Num 0\<rparr>"
  let ?B = "\<lparr>ctx_size = 2, ctx_bombs = Num 1, ctx_total = 4, ctx_client_seed = ''b'', ctx_bet = Num 0\<rparr>"
  let ?EA = "\<lparr>env_fetch = FetchFailed, env_now_ms = 2, env_now_iso = ''t2'', env_uuid = ''a''\<rparr>"
  let ?EB = "\<lparr>env_fetch = FetchFailed, env_now_ms = 1, env_now_iso = ''t1'', env_uuid = ''b''\<rparr>"
  have cA: "start_checks \<lparr>req_size = (True, Num 2), req_bombs = (True, Num 1),
              req_client_seed = Some ''a'', req_bet = (False, Num 0)\<rparr> = Inr ?A"
    and cB: "start_checks \<lparr>req_size = (True, Num 2), req_bombs = (True, Num 1),
              req_client_seed = Some ''b'', req_bet = (False, Num 0)\<rparr> = Inr ?B"
    by (simp_all add: start_checks_def Let_def client_seed_missing_def js_nat_def)
  have "server_reach ?H (\<lparr>hist = [], awaiting = []\<rparr>\<lparr>awaiting := awaiting \<lparr>hist = [], awaiting = []\<rparr> @ [?A]\<rparr>)"
    by (rule server_reach.step [OF server_reach.boot server_step.begin_start [OF cA]])
  then have r1: "server_reach ?H \<lparr>hist = [], awaiting = [?A]\<rparr>"
    by simp
  have "server_reach ?H (\<lparr>hist = [], awaiting = [?A]\<rparr>\<lparr>awaiting := awaiting \<lparr>hist = [], awaiting = [?A]\<rparr> @ [?B]\<rparr>)"
    by (rule server_reach.step [OF r1 server_step.begin_start [OF cB]])
  then have r2: "server_reach ?H \<lparr>hist = [], awaiting = [?A, ?B]\<rparr>"
    by simp
  have "server_reach ?H
          \<lparr>hist = (start_resume ?H ?EB (awaiting \<lparr>hist = [], awaiting = [?A, ?B]\<rparr> ! 1)
                        (hist \<lparr>hist = [], awaiting = [?A, ?B]\<rparr>)),
           awaiting = take 1 (awaiting \<lparr>hist = [], awaiting = [?A, ?B]\<rparr>) @
                      drop (Suc 1) (awaiting \<lparr>hist = [], awaiting = [?A, ?B]\<rparr>)\<rparr>"
    by (rule server_reach.step [OF r2 server_step.resume_start]) simp
  then have r3: "server_reach ?H \<lparr>hist = (start_resume ?H ?EB ?B []), awaiting = [?A]\<rparr>"
    by simp
  have "server_reach ?H
          \<lparr>hist = (start_resume ?H ?EA
                        (awaiting \<lparr>hist = (start_resume ?H ?EB ?B []), awaiting = [?A]\<rparr> ! 0)
                        (hist \<lparr>hist = (start_resume ?H ?EB ?B []), awaiting = [?A]\<rparr>)),
           awaiting = take 0 (awaiting \<lparr>hist = (start_resume ?H ?EB ?B []), awaiting = [?A]\<rparr>) @
                      drop (Suc 0) (awaiting \<lparr>hist = (start_resume ?H ?EB ?B []), awaiting = [?A]\<rparr>)\<rparr>"
    by (rule server_reach.step [OF r3 server_step.resume_start]) simp
  then show ?thesis
    by simp
qed

text \<open>C15: awaiting the entropy fetch inside \<open>/api/start\<close> is harmless: every history
  the event loop produces, with starts overlapping reveals, cashouts and each other in
  any order, is one that the handlers run one at a time also produce.\<close>

theorem server_refines_atomic:
  assumes "server_reach hmac s"
  shows "reachable hmac (hist s)"
  using server_reach_inv [OF assms] by simp

theorem server_refines_atomic_witness:
  "reachable (\<lambda>_ _. ''00'')
     (hist \<lparr>hist = (start_resume (\<lambda>_ _. ''00'')
                   \<lparr>env_fetch = FetchFailed, env_now_ms = 2, env_now_iso = ''t2'', env_uuid = ''a''\<rparr>
                   \<lparr>ctx_size = 2, ctx_bombs = Num 1, ctx_total = 4, ctx_client_seed = ''a'', ctx_bet = Num 0\<rparr>
                   ((start_resume (\<lambda>_ _. ''00'')
                     \<lparr>env_fetch = FetchFailed, env_now_ms = 1, env_now_iso = ''t1'', env_uuid = ''b''\<rparr>
                     \<lparr>ctx_size = 2, ctx_bombs = Num 1, ctx_total = 4, ctx_client_seed = ''b'', ctx_bet = Num 0\<rparr>
                     []))),
      awaiting = []\<rparr>)"
  by (rule server_refines_atomic [OF server_reach_two_starts])

text \<open>C16: because the nonce is read after the await, in the same synchronous step as the
  push, overlapping starts still get the nonces \<open>1, 2, ..., n\<close> in push order: no two
  games share a nonce (and so an HMAC message) under any interleaving.\<close>

theorem server_nonces_unique:
  assumes "server_reach hmac s"
  shows "distinct (map nonce (hist s)) \<and> map nonce (hist s) = [1..<Suc (length (hist s))]"
proof -
  have "store_inv hmac (hist s)"
    using server_reach_inv [OF assms] reachable_store_inv by blast
  then show ?thesis
    by (simp add: store_inv_def)
qed

theorem server_nonces_unique_witness:
  "map nonce (hist \<lparr>hist = (start_resume (\<lambda>_ _. ''00'')
                   \<lparr>env_fetch = FetchFailed, env_now_ms = 2, env_now_iso = ''t2'', env_uuid = ''a''\<rparr>
                   \<lparr>ctx_size = 2, ctx_bombs = Num 1, ctx_total = 4, ctx_client_seed = ''a'', ctx_bet = Num 0\<rparr>
                   ((start_resume (\<lambda>_ _. ''00'')
                     \<lparr>env_fetch = FetchFailed, env_now_ms = 1, env_now_iso = ''t1'', env_uuid = ''b''\<rparr>
                     \<lparr>ctx_size = 2, ctx_bombs = Num 1, ctx_total = 4, ctx_client_seed = ''b'', ctx_bet = Num 0\<rparr>
                     []))),
      awaiting = []\<rparr>) = [1, 2]"
  using server_nonces_unique [OF server_reach_two_starts]
  by (simp add: start_resume_def start_after_fetch_def Let_def)

text \<open>No stuck game: in every state of the event loop, a game that is still
  running can be ended in one step, by a cashout; so every game can reach a terminal
  state whatever happened before.\<close>

theorem running_game_can_end:
  assumes "lookup_game (hist s) gid = Some (p, g)" and "\<not> finished g"
  shows "\<exists>t g'. server_step hmac s t \<and> lookup_game (hist t) gid = Some (p, g') \<and> finished g' \<and>
                result g' = Cashed"
proof -
  let ?g' = "g\<lparr>finished := True, result := Cashed,
               payout_multiplier := Some (compute_multiplier (total_cells g) (bombs g) (length (opened g)))\<rparr>"
  have c: "cashout (hist s) gid =
      Inr (\<lparr>payout = compute_multiplier (total_cells g) (bombs g) (length (opened g)),
             cashed_game = ?g'\<rparr>, (hist s)[p := ?g'])"
    by (rule cashout_active [OF assms(1,2)])
  have gid: "game_id g = gid"
    using assms(1) by (simp add: lookup_game_iff)
  have "server_step hmac s (s\<lparr>hist := (hist s)[p := ?g']\<rparr>)"
    by (rule server_step.cash [OF c])
  moreover have "lookup_game (hist (s\<lparr>hist := (hist s)[p := ?g']\<rparr>)) gid = Some (p, ?g')"
    using lookup_game_update [OF assms(1)] gid by simp
  ultimately show ?thesis
    by fastforce
qed

theorem running_game_can_end_witness:
  "\<exists>t g'. server_step (\<lambda>_ _. ''00'') \<lparr>hist = [\<lparr>game_id = ''g'', created_at = '''', size = 2,
       bombs = Num 1, total_cells = 4, client_seed = ''c'', server_seed = ''s'', nonce = 1,
       bet = Num 0, bombs_positions = [0], opened = [3], finished = False, result = NoResult,
       payout_multiplier = None\<rparr>], awaiting = []\<rparr> t \<and>
     lookup_game (hist t) ''g'' = Some (0, g') \<and> finished g' \<and> result g' = Cashed"
proof -
  define g0 where "g0 = \<lparr>game_id = ''g'', created_at = '''', size = 2,
       bombs = Num 1, total_cells = 4, client_seed = ''c'', server_seed = ''s'', nonce = 1,
       bet = Num 0, bombs_positions = [0], opened = [3], finished = False, result = NoResult,
       payout_multiplier = None\<rparr>"
  have "lookup_game (hist \<lparr>hist = [g0], awaiting = []\<rparr>) ''g'' = Some (0, g0)"
    by (simp add: g0_def lookup_game_def)
  from running_game_can_end [OF this] show ?thesis
    by (simp add: g0_def)
qed

end
