(* ===== verification/Persistence.thy ===== *)
theory Persistence
  imports Server
begin

text \<open>
  The history file of \<open>src/server.js\<close>: at boot the server creates
  \<open>data/history.json\<close> holding \<open>[]\<close> if it is missing and reads it into \<open>history\<close>
  (lines 19--21); every handler that changes the history calls \<open>saveHistory\<close>
  (lines 23--25, a synchronous \<open>writeJSONSync\<close>) after it changed the history in memory
  and before it answers (lines 116, 142, 149, 170). \<open>node_step\<close> extends the event loop of
  theory \<open>Server\<close> with the file and with a restart of the process, which reloads the
  file and drops the starts that were waiting on their fetch. Each save may throw
  (\<open>save_ok\<close> false: the disk is full, the file is not writable): the change stays in
  memory, the file keeps the last history saved, and the handler answers 500. A start that
  fails before its push (the \<open>RangeError\<close> of theory \<open>Server\<close>) saves nothing. The
  JSON round trip is taken as the identity, which it is for every game whose numbers are
  finite (a \<open>NaN\<close> bomb count is written as \<open>null\<close>).
\<close>

section \<open>Definitions\<close>

record node_state =
  live :: server_state
  disk :: history

inductive node_step :: "hmac_sha512_hex \<Rightarrow> node_state \<Rightarrow> node_state \<Rightarrow> bool"
  for hmac where
  begin_start: "start_checks req = Inr ctx \<Longrightarrow>
     node_step hmac n (n\<lparr>live := (live n)\<lparr>awaiting := awaiting (live n) @ [ctx]\<rparr>\<rparr>)"
| resume_start: "i < length (awaiting (live n)) \<Longrightarrow>
     start_after_fetch hmac env (awaiting (live n) ! i) (hist (live n)) = Inr (r, h') \<Longrightarrow>
     node_step hmac n
       \<lparr>live = \<lparr>hist = h', awaiting = take i (awaiting (live n)) @ drop (Suc i) (awaiting (live n))\<rparr>,
        disk = (if save_ok then h' else disk n)\<rparr>"
| resume_error: "i < length (awaiting (live n)) \<Longrightarrow>
     start_after_fetch hmac env (awaiting (live n) ! i) (hist (live n)) = Inl e \<Longrightarrow>
     node_step hmac n
       (n\<lparr>live := (live n)\<lparr>awaiting := take i (awaiting (live n)) @ drop (Suc i) (awaiting (live n))\<rparr>\<rparr>)"
| reveal: "reveal_cell (hist (live n)) gid x = Inr (r, h') \<Longrightarrow>
     node_step hmac n \<lparr>live = (live n)\<lparr>hist := h'\<rparr>, disk = (if save_ok then h' else disk n)\<rparr>"
| cash: "cashout (hist (live n)) gid = Inr (c, h') \<Longrightarrow>
     node_step hmac n \<lparr>live = (live n)\<lparr>hist := h'\<rparr>, disk = (if save_ok then h' else disk n)\<rparr>"
| restart: "node_step hmac n \<lparr>live = \<lparr>hist = disk n, awaiting = []\<rparr>, disk = disk n\<rparr>"

inductive node_reach :: "hmac_sha512_hex \<Rightarrow> node_state \<Rightarrow> bool" for hmac where
  boot: "node_reach hmac \<lparr>live = \<lparr>hist = [], awaiting = []\<rparr>, disk = []\<rparr>"
| step: "node_reach hmac n \<Longrightarrow> node_step hmac n n' \<Longrightarrow> node_reach hmac n'"

text \<open>One \<open>/api/reveal\<close> request with the file in the picture (lines 125--154):
  \<open>save_ok\<close> says whether \<open>saveHistory()\<close> returns or throws. The handler has already
  pushed the cell (and marked a bomb's game lost) when it saves; a throw lands in the
  \<open>catch\<close>, which answers 500 without undoing anything.\<close>

datatype reveal_answer = RevealOk reveal_response | RevealRefused api_error | RevealServerError

definition reveal_request ::
  "bool \<Rightarrow> node_state \<Rightarrow> string \<Rightarrow> jsnum \<Rightarrow> reveal_answer \<times> node_state" where
  "reveal_request save_ok n gid x =
     (case reveal_cell (hist (live n)) gid x of
        Inl e \<Rightarrow> (RevealRefused e, n)
      | Inr (r, h') \<Rightarrow>
          if save_ok then (RevealOk r, \<lparr>live = (live n)\<lparr>hist := h'\<rparr>, disk = h'\<rparr>)
          else (RevealServerError, n\<lparr>live := (live n)\<lparr>hist := h'\<rparr>\<rparr>))"

section \<open>Lemmas\<close>


text \<open>A start that begins and resumes while no other start waits, its save returning
  (\<open>ok\<close>) or throwing.\<close>

lemma node_reach_start:
  assumes r: "node_reach hmac n" and aw: "awaiting (live n) = []"
    and c: "start_checks req = Inr ctx"
    and e: "start_after_fetch hmac env ctx (hist (live n)) = Inr (sr, h')"
  shows "node_reach hmac \<lparr>live = \<lparr>hist = h', awaiting = []\<rparr>, disk = (if ok then h' else disk n)\<rparr>"
proof -
  let ?n1 = "n\<lparr>live := (live n)\<lparr>awaiting := awaiting (live n) @ [ctx]\<rparr>\<rparr>"
  have r1: "node_reach hmac ?n1"
    by (rule node_reach.step [OF r node_step.begin_start [OF c]])
  have "node_step hmac ?n1
          \<lparr>live = \<lparr>hist = h', awaiting = take 0 (awaiting (live ?n1)) @ drop (Suc 0) (awaiting (live ?n1))\<rparr>,
           disk = (if ok then h' else disk ?n1)\<rparr>"
    by (rule node_step.resume_start [where env = env and r = sr]) (simp_all add: aw e)
  then show ?thesis
    using node_reach.step [OF r1] aw by (cases ok) simp_all
qed

text \<open>C24: a reveal whose \<open>saveHistory\<close> throws is answered 500, yet the cell is opened in
  the live history (and a bomb has ended the game) while the file still holds the old
  history; the client's retry of the same request is then refused, with
  \<open>cell already opened\<close> or \<open>game already finished\<close>. The request is not rolled back.\<close>

theorem reveal_save_failure_not_rolled_back:
  assumes lk: "lookup_game (hist (live n)) gid = Some (p, g)" and nf: "\<not> finished g"
    and idx: "idx < total_cells g" "idx \<notin> set (opened g)"
  shows "fst (reveal_request False n gid (Num (of_nat idx))) = RevealServerError \<and>
         disk (snd (reveal_request False n gid (Num (of_nat idx)))) = disk n \<and>
         idx \<in> set (opened (hist (live (snd (reveal_request False n gid (Num (of_nat idx))))) ! p)) \<and>
         fst (reveal_request ok (snd (reveal_request False n gid (Num (of_nat idx)))) gid
                (Num (of_nat idx))) =
           RevealRefused (if idx \<in> set (bombs_positions g) then GameAlreadyFinished
                          else CellAlreadyOpened)"
proof -
  have gid: "game_id g = gid" and pl: "p < length (hist (live n))"
    using lk by (simp_all add: lookup_game_iff)
  show ?thesis
  proof (cases "idx \<in> set (bombs_positions g)")
    case True
    let ?g' = "g\<lparr>opened := opened g @ [idx], finished := True, result := Lost\<rparr>"
    have rv: "reveal_cell (hist (live n)) gid (Num (of_nat idx)) =
        Inr (\<lparr>is_bomb = True, resp_opened = opened g @ [idx], multiplier = Num 0,
               resp_game = ?g'\<rparr>, (hist (live n))[p := ?g'])"
      by (rule reveal_cell_bomb [OF lk nf idx True])
    have l': "lookup_game ((hist (live n))[p := ?g']) gid = Some (p, ?g')"
      using lookup_game_update [OF lk] gid by simp
    show ?thesis
      using True pl reveal_cell_errors(2) [OF l'] by (simp add: reveal_request_def rv)
  next
    case False
    let ?g' = "g\<lparr>opened := opened g @ [idx]\<rparr>"
    have rv: "reveal_cell (hist (live n)) gid (Num (of_nat idx)) =
        Inr (\<lparr>is_bomb = False, resp_opened = opened g @ [idx],
               multiplier = compute_multiplier (total_cells g) (bombs g) (Suc (length (opened g))),
               resp_game = ?g'\<rparr>, (hist (live n))[p := ?g'])"
      by (rule reveal_cell_safe [OF lk nf idx False])
    have l': "lookup_game ((hist (live n))[p := ?g']) gid = Some (p, ?g')"
      using lookup_game_update [OF lk] gid by simp
    have "reveal_cell ((hist (live n))[p := ?g']) gid (Num (of_nat idx)) = Inl CellAlreadyOpened"
      by (rule reveal_cell_errors(5) [OF l']) (simp_all add: nf idx)
    then show ?thesis
      using False pl by (simp add: reveal_request_def rv)
  qed
qed

theorem reveal_save_failure_not_rolled_back_witness:
  "fst (reveal_request False \<lparr>live = \<lparr>hist = [\<lparr>game_id = ''g'', created_at = '''', size = 2,
       bombs = Num 1, total_cells = 4, client_seed = ''c'', server_seed = ''s'', nonce = 1,
       bet = Num 0, bombs_positions = [0], opened = [], finished = False, result = NoResult,
       payout_multiplier = None\<rparr>], awaiting = []\<rparr>, disk = []\<rparr> ''g'' (Num (of_nat 3))) =
     RevealServerError \<and>
   fst (reveal_request True (snd (reveal_request False \<lparr>live = \<lparr>hist = [\<lparr>game_id = ''g'',
       created_at = '''', size = 2, bombs = Num 1, total_cells = 4, client_seed = ''c'',
       server_seed = ''s'', nonce = 1, bet = Num 0, bombs_positions = [0], opened = [],
       finished = False, result = NoResult, payout_multiplier = None\<rparr>], awaiting = []\<rparr>,
       disk = []\<rparr> ''g'' (Num (of_nat 3)))) ''g'' (Num (of_nat 3))) =
     RevealRefused CellAlreadyOpened"
proof -
  define g0 where "g0 = \<lparr>game_id = ''g'', created_at = '''', size = 2,
       bombs = Num 1, total_cells = 4, client_seed = ''c'', server_seed = ''s'', nonce = 1,
       bet = Num 0, bombs_positions = [0], opened = [], finished = False, result = NoResult,
       payout_multiplier = None\<rparr>"
  have "lookup_game (hist (live \<lparr>live = \<lparr>hist = [g0], awaiting = []\<rparr>, disk = []\<rparr>)) ''g'' =
          Some (0, g0)"
    by (simp add: g0_def lookup_game_def)
  from reveal_save_failure_not_rolled_back [OF this, of 3 True] show ?thesis
    by (simp add: g0_def)
qed




text \<open>C32: a save that throws loses a game at the next restart. In a run where start A
  completes and is saved and start B completes but its \<open>saveHistory\<close> throws (answered
  500), game \<open>b\<close> is in the live history, where \<open>/api/history\<close> and \<open>/api/verify\<close> show
  it and \<open>/api/reveal\<close> plays it, while the file holds only A; a restart then reloads the
  file and game \<open>b\<close> is gone, and the next start takes its nonce \<open>2\<close> again
  (\<open>history.length + 1\<close>, line 96).\<close>

theorem node_restart_loses_game:
  "\<exists>n n'. node_reach (\<lambda>_ _. ''00'') n \<and> node_step (\<lambda>_ _. ''00'') n n' \<and>
          (\<exists>g. lookup_game (hist (live n)) ''b'' = Some (1, g) \<and>
               nonce g = length (hist (live n')) + 1) \<and>
          lookup_game (disk n) ''b'' = None \<and> lookup_game (hist (live n')) ''b'' = None \<and>
          awaiting (live n') = []"
proof -
  let ?H = "\<lambda>_ _. ''00''"
  let ?A = "\<lparr>ctx_size = 2, ctx_bombs = Num 1, ctx_total = 4, ctx_client_seed = ''a'', ctx_bet = Num 0\<rparr>"
  let ?B = "\<lparr>ctx_size = 2, ctx_bombs = Num 1, ctx_total = 4, ctx_client_seed = ''b'', ctx_bet = Num 0\<rparr>"
  let ?EA = "\<lparr>env_fetch = FetchFailed, env_now_ms = 0, env_now_iso = ''t1'', env_uuid = ''a''\<rparr>"
  let ?EB = "\<lparr>env_fetch = FetchFailed, env_now_ms = 5, env_now_iso = ''t2'', env_uuid = ''b''\<rparr>"
  have cA: "start_checks \<lparr>req_size = (True, Num 2), req_bombs = (True, Num 1),
              req_client_seed = Some ''a'', req_bet = (False, Num 0)\<rparr> = Inr ?A"
    and cB: "start_checks \<lparr>req_size = (True, Num 2), req_bombs = (True, Num 1),
              req_client_seed = Some ''b'', req_bet = (False, Num 0)\<rparr> = Inr ?B"
    by (simp_all add: start_checks_def Let_def client_seed_missing_def js_nat_def)
  obtain rA gA where eA: "start_after_fetch ?H ?EA ?A [] = Inr (rA, [gA])" and iA: "game_id gA = ''a''"
    by (simp add: start_after_fetch_def Let_def)
  obtain rB gB where eB: "start_after_fetch ?H ?EB ?B [gA] = Inr (rB, [gA, gB])" and iB: "game_id gB = ''b''"
    and nB: "nonce gB = 2"
    by (simp add: start_after_fetch_def Let_def)
  have r2: "node_reach ?H \<lparr>live = \<lparr>hist = [gA], awaiting = []\<rparr>, disk = [gA]\<rparr>"
    using node_reach_start [OF node_reach.boot _ cA, where env = ?EA and sr = rA and h' = "[gA]" and ok = True] eA by simp
  have r4: "node_reach ?H \<lparr>live = \<lparr>hist = [gA, gB], awaiting = []\<rparr>, disk = [gA]\<rparr>"
    using node_reach_start [OF r2 _ cB, where env = ?EB and sr = rB and h' = "[gA, gB]" and ok = False] eB by simp
  let ?n4 = "\<lparr>live = \<lparr>hist = [gA, gB], awaiting = []\<rparr>, disk = [gA]\<rparr>"
  have s5: "node_step ?H ?n4 \<lparr>live = \<lparr>hist = disk ?n4, awaiting = []\<rparr>, disk = disk ?n4\<rparr>"
    by (rule node_step.restart)
  have l: "lookup_game [gA, gB] ''b'' = Some (1, gB)" "lookup_game [gA] ''b'' = None"
    using iA iB by (simp_all add: lookup_game_def)
  show ?thesis
    using r4 s5 l nB
    by (intro exI [of _ ?n4] exI [of _ "\<lparr>live = \<lparr>hist = [gA], awaiting = []\<rparr>, disk = [gA]\<rparr>"]) simp
qed

end
