(* ===== verification/Spec2Isabelle.thy ===== *)
theory Spec2Isabelle
  imports ClientAuto ClientView Persistence
begin

text \<open>
  \<^bold>\<open>A verification development of the Mines game server (Minhdinh8/mines).\<close>

  \<^emph>\<open>The program.\<close> \<open>src/server.js\<close> is an Express server keeping every game in a
  global array \<open>history\<close> (written to \<open>data/history.json\<close> after each change).
  \<open>POST /api/start\<close> validates the grid size and bomb count, asks TronGrid for a
  block id (\<open>fetchTrxBlockId\<close>, with a \<open>fallback-<ms>\<close> seed on failure), takes the
  nonce \<open>history.length + 1\<close>, draws the bomb layout with \<open>generateBombs\<close> and pushes
  the game. \<open>generateBombs\<close> keys HMAC-SHA512 with the server seed over
  \<open>clientSeed:nonce\<close>, folds the digest into a 32-bit seed (\<open>xorshiftSeedFromHex\<close>),
  shuffles \<open>[0, N\<^sup>2)\<close> with a backwards Fisher--Yates loop driven by that generator
  and keeps the first \<open>bombs\<close> indices, sorted. \<open>POST /api/reveal\<close> and
  \<open>POST /api/cashout\<close> look the game up, refuse finished games, bad or repeated
  indices, and update the game in place; the multiplier comes from
  \<open>computeMultiplier\<close>. \<open>GET /api/history\<close> and \<open>GET /api/verify/:gameId\<close> read
  the array. The browser client \<open>src/public/app.js\<close> queues clicked cells
  (\<open>enqueueReveal\<close>), sends the reveals one at a time (\<open>processQueue\<close>), draws the
  page, and plays rounds by itself in auto mode (\<open>startAuto\<close>).

  \<^emph>\<open>The theories.\<close>
  \<^item> \<open>Prelude\<close>: JavaScript numbers (\<open>jsnum\<close>: a rational or \<open>NaN\<close>) and the built-ins
    the code relies on (comparisons, arithmetic, \<open>Number.isInteger\<close>, \<open>slice\<close>,
    \<open>parseInt(_, 16)\<close>, \<open>padEnd\<close>, \<open>toFixed(6)\<close>, integer printing), the
    destructuring swap, and the list, hex and rounding lemmas shared by the rest.
  \<^item> \<open>Prng\<close> (\<open>xorshiftSeedFromHex\<close>, lines 40--52): \<open>seed_fold\<close>,
    \<open>initial_state\<close>, \<open>prng_next\<close> and \<open>rnd\<close> on 32-bit words, and \<open>js_step\<close>,
    \<open>js_seed_fold\<close>, \<open>js_initial_state\<close>, the same code in JavaScript's int32/uint32
    semantics. \<open>rnd_js_equiv\<close> and \<open>initial_state_js_equiv\<close>: the word model is
    exactly JavaScript's arithmetic; \<open>initial_state_take32\<close>: only the first 32 hex
    characters of the digest matter.
  \<^item> \<open>Layout\<close> (\<open>generateBombs\<close>, lines 55--64): \<open>shuffle_loop\<close> (the loop, with the
    generator state threaded through), \<open>shuffle_indices\<close>, \<open>generate_bombs\<close>, with
    the HMAC as a parameter. \<open>generate_bombs_valid\<close>: an integer bomb count \<open>b\<close> gives
    \<open>b\<close> distinct sorted cells of the grid, through the permutation lemma of the
    shuffle. The lemmas use only that each draw lies in \<open>[0, i]\<close>, which holds for the
    exact and for the double product alike.
  \<^item> \<open>Payout\<close> (\<open>computeMultiplier\<close>, lines 67--80): \<open>survival_loop\<close> and
    \<open>compute_multiplier\<close> over JavaScript numbers. Only properties that do not depend on
    the binary digits of doubles are stated: the answer is \<open>NaN\<close> exactly for a \<open>NaN\<close>
    bomb count and has at most six decimals otherwise.
  \<^item> \<open>Game\<close> (lines 28--37, 83--203): the game record, the error datatype (with the 500
    of a thrown exception), the entropy source, \<open>start_game\<close>, \<open>reveal_cell\<close>,
    \<open>cashout\<close>, \<open>history_summary\<close> and \<open>verify_game\<close> over the history list, each
    handler returning \<open>Inl\<close> error (nothing changed) or \<open>Inr\<close> (answer, new history);
    branch-by-branch lemmas and the handler properties (ended games refuse everything, no
    double reveal, the start contract and its \<open>RangeError\<close> for grids of \<open>2^32\<close> cells or
    more, the bomb and safe branches of a reveal (scenario C), the order of
    \<open>/api/history\<close>, the fallback seed never colliding with a block-id seed, and two
    findings: the reveal answer carries the layout of a running game, and \<open>NaN\<close> or
    fractional bomb counts are accepted).
  \<^item> \<open>Invariants\<close>: \<open>game_inv\<close>, \<open>audit_ok\<close>, \<open>store_inv\<close>, and \<open>reachable\<close>, the
    histories the three mutating handlers produce in any order from the empty one; the
    invariant holds on all of them by rule induction (\<open>reachable_store_inv\<close>), which
    gives the spec's data-model invariants, the safe-cell bound and the nonce sequence.
  \<^item> \<open>Server\<close> (lines 83--176 under Node's event loop): \<open>/api/start\<close> split at its
    \<open>await\<close> into \<open>start_checks\<close> and the continuation \<open>start_after_fetch\<close>
    (\<open>start_game_split\<close> composes them back; the continuation answers 500 for the
    \<open>RangeError\<close>), and \<open>server_step\<close>, in which waiting starts resume in any order
    between reveals and cashouts. Every interleaved history is reachable by the atomic
    handlers (\<open>server_refines_atomic\<close>), so the invariants, unique nonces included, hold
    under concurrency; a running game can always be ended by a cashout.
  \<^item> \<open>Persistence\<close> (lines 19--25 and the \<open>saveHistory()\<close> calls): \<open>node_step\<close> adds
    \<open>data/history.json\<close>, saves that may throw, and process restarts to the event loop.
    The file always holds a history the handlers produce, whatever saves failed
    (\<open>node_disk_consistent\<close>); a failed save is not rolled back
    (\<open>reveal_save_failure_not_rolled_back\<close>), and after a restart the game it did not
    save is gone and its nonce is handed out again (\<open>node_restart_loses_game\<close>).
  \<^item> \<open>Client\<close> (\<open>app.js\<close> lines 73--92): \<open>enqueue_reveal\<close> and \<open>process_queue\<close>, the
    reveal queue run against the server model, and \<open>auto_fast_round\<close>. The queue stays
    duplicate-free and the client's opened list always agrees with the server's.
  \<^item> \<open>ClientApp\<close> (\<open>app.js\<close> lines 5--17, 46--65, 80--153, 203--236): the client's
    \<open>state\<close> as a record extending the queue state (with the auto mode and the cashout
    button), \<open>client_start_game\<close> (\<open>startGame\<close> composed with \<open>start_game\<close> through the
    JSON encoding of the form; \<open>client_start_answer\<close> is the answer it gets),
    \<open>revealSingle\<close> (\<open>reveal_reply\<close>: the answer handled for the game id the request
    carried) and \<open>processQueue\<close> on the whole state, the click, cashout and verify
    handlers, and the head and bookkeeping of an iteration of \<open>startAuto\<close>. A start
    leaves client and server in agreement (\<open>client_start_game_syncs\<close>); the client's
    bomb-count check never blocks a game the server would start
    (\<open>client_precheck_sound\<close>).
  \<^item> \<open>ClientAuto\<close> (\<open>app.js\<close> lines 80--111, 210--227): a round of \<open>startAuto\<close> as the
    step relation \<open>auto_round_step\<close> over \<open>auto_round\<close> (history, client state, loop
    index, the position of \<open>processQueue\<close>, alerts shown), with one rule per event: an
    iteration of the enqueue loop, a shift of the queue (line 84), the send after the delay
    (which reads \<open>state.gameId\<close>, line 97), an answer. Every order of events is a run, so
    both \<open>fast\<close> (all enqueues first) and \<open>enjoy\<close> (50 ms pauses) are covered. Every run
    terminates (\<open>auto_round_terminates\<close>, a measure); every run that ends with
    \<open>processQueue\<close> idle has lost the game at its lowest bomb with one alert per later
    cell (\<open>auto_round_any_interleaving_loses\<close>, by the invariant \<open>round_inv\<close> and rule
    induction). The wait of line 227 does not cover the answer in flight: when the only
    bomb is the last cell, a round can end before that answer, which later overwrites the
    next game's state (\<open>auto_round_ends_before_last_answer\<close>).
  \<^item> \<open>ClientView\<close> (\<open>app.js\<close> lines 19--44, 67--70, 94--196, 242--252): the page (grid
    cells with their classes, text and click listener; meta fields, counters, multiplier,
    spinner, modals, history list, balance, \<open>autoRunning\<close>) and the page side of every
    handler: \<open>setMeta\<close>, \<open>buildGrid\<close>, \<open>updateCounts\<close>, \<open>applyCellState\<close>,
    \<open>disableGrid\<close> (clones drop the listeners), \<open>revealSingle\<close> (the multiplier through
    \<open>toFixed(4)\<close>), \<open>processQueue\<close>, \<open>cashout\<close>, \<open>verify\<close> with the modal and its close
    button, \<open>loadHistory\<close> and its Verify buttons, deposit and withdraw with \<open>format\<close>,
    \<open>startAuto\<close>'s head and \<open>stopAuto\<close>. \<open>page_shows_server_game\<close>: after a valid start
    and any clicks, the grid shows exactly the server's game (invariant \<open>view_inv\<close>).
    \<open>history_verify_loses_running_game\<close>: a row's Verify button takes the page away
    from its running game.
  \<^item> This theory: the properties that span the server and a third party or the client:
    any recorded layout is reproducible from what \<open>/api/verify\<close> discloses, and a
    player who clears all safe cells through the queue and cashes out is paid
    \<open>computeMultiplier(t, b, t - b)\<close> (scenario D).

  \<^emph>\<open>Modelling choices and what is left out.\<close> JavaScript doubles are exact rationals:
  \<open>rnd() * (i + 1)\<close>, the survival product, the literal \<open>0.98\<close> (a double slightly
  below it) and \<open>0.98 / survival\<close> are exact, so rounding and underflow of doubles are not
  modelled. The printed digits of a multiplier and the exact draw of \<open>Math.floor\<close> may
  therefore differ from the code's, and no theorem states them: the payout lemmas are
  about which value \<open>computeMultiplier\<close> is called with, and the layout lemmas about
  draws in \<open>[0, i]\<close>. All integer arithmetic of the generator is bit-exact on
  \<open>32 word\<close>. HMAC-SHA512, \<open>uuidv4\<close>, the clock and the TronGrid answer are inputs
  (any values), so every theorem holds for any HMAC. A request field is the pair of its
  truthiness and its \<open>Number\<close> conversion. \<open>Array.from\<close> throws a \<open>RangeError\<close> for
  \<open>2^32\<close> cells or more; the model answers 500 there (the memory a smaller huge grid
  needs is not modelled). Node runs each handler to its next \<open>await\<close>: reveals and
  cashouts are atomic steps, and the one await of \<open>/api/start\<close> is explicit in theory
  \<open>Server\<close>. Loops are recursive functions with their termination proofs
  (\<open>seed_fold\<close>: measure \<open>32 - i\<close>; \<open>survival_loop\<close>: \<open>safeOpened - i\<close>;
  \<open>shuffle_loop\<close> and \<open>nat_to_string\<close> structurally or by \<open>div\<close>; \<open>process_pending\<close>:
  the length of the queue); the interleaved rounds of auto mode terminate by the measure
  of \<open>auto_round_step_measure\<close>; no fuel is needed. Not modelled: the JSON encoding of
  the history file (the identity, which holds for finite numbers; a \<open>NaN\<close> bomb count
  comes back as \<open>null\<close>), a file edited by hand, the Express plumbing (\<open>express\<close>
  setup, static files, \<open>listen\<close>: no state of the game), and on the client: emoji and
  styles, alert dialogs (counted in \<open>ClientAuto\<close>), timer durations (replaced by every
  order of events), the page's HTML (not in the repository; its initial DOM is taken as
  empty), \<open>stopAuto\<close> during a round, and network failures.

  \<^emph>\<open>Plan for later work.\<close> The whole \<open>startAuto\<close> loop as a run of rounds (with
  \<open>stopAuto\<close> at any point); clicks of manual play while a reveal is in flight (a cell
  can then be queued twice); the multiplier in IEEE doubles.
\<close>

section \<open>Definitions\<close>

text \<open>None: this theory only combines the components.\<close>

section \<open>Properties across components\<close>

text \<open>C5: in every reachable history, the answer of \<open>/api/verify\<close> lets anyone recompute
  the game's bomb layout: running \<open>generateBombs\<close> on the disclosed server seed, client
  seed, nonce, cell count and bomb count gives exactly the disclosed positions.\<close>

theorem verify_layout_reproducible:
  assumes "reachable hmac h" and "verify_game h gid = Inr d"
  shows "dis_bombs_positions d =
           generate_bombs hmac (dis_server_seed d) (dis_client_seed d) (dis_nonce d)
             (dis_total_cells d) (dis_bombs d)"
proof -
  obtain p g where l: "lookup_game h gid = Some (p, g)"
    using assms(2) by (auto simp: verify_game_def split: option.splits)
  have "audit_ok hmac g"
    using store_inv_lookup [OF reachable_store_inv [OF assms(1)] l] by simp
  then show ?thesis
    using assms(2) l by (auto simp: verify_game_def audit_ok_def)
qed

theorem verify_layout_reproducible_witness:
  "\<exists>d. verify_game [\<lparr>game_id = ''g'', created_at = ''t'', size = 2, bombs = Num 1, total_cells = 4,
       client_seed = ''abc'', server_seed = ''b2'', nonce = 1, bet = Num 1,
       bombs_positions = generate_bombs (\<lambda>_ _. ''00'') ''b2'' ''abc'' 1 4 (Num 1),
       opened = [], finished = False, result = NoResult, payout_multiplier = None\<rparr>] ''g'' = Inr d \<and>
     dis_bombs_positions d =
       generate_bombs (\<lambda>_ _. ''00'') (dis_server_seed d) (dis_client_seed d) (dis_nonce d)
         (dis_total_cells d) (dis_bombs d)"
proof -
  obtain d where v: "verify_game [\<lparr>game_id = ''g'', created_at = ''t'', size = 2, bombs = Num 1,
       total_cells = 4, client_seed = ''abc'', server_seed = ''b2'', nonce = 1, bet = Num 1,
       bombs_positions = generate_bombs (\<lambda>_ _. ''00'') ''b2'' ''abc'' 1 4 (Num 1),
       opened = [], finished = False, result = NoResult, payout_multiplier = None\<rparr>] ''g'' = Inr d"
    by (simp add: verify_game_def lookup_game_def)
  show ?thesis
    using v verify_layout_reproducible [OF reachable_one_game v] by blast
qed

text \<open>C6 (scenario D of the specification): from any reachable history, a player who
  queues exactly the safe cells of a running game that are not opened yet gets every one
  of them revealed, and the cashout that follows pays
  \<open>computeMultiplier(totalCells, bombs, totalCells - |bombsPositions|)\<close>.\<close>

theorem clear_board_then_cashout:
  assumes "reachable hmac h" and "lookup_game h gid = Some (p, g)" and "\<not> finished g"
    and "distinct cells"
    and "set cells = {..<total_cells g} - set (bombs_positions g) - set (opened g)"
  shows "\<exists>c h'. cashout (fst (process_queue gid (h, opn) cells)) gid = Inr (c, h') \<and>
           payout c = compute_multiplier (total_cells g) (bombs g)
                         (total_cells g - length (bombs_positions g))"
proof -
  have inv: "game_inv g"
    using store_inv_lookup [OF reachable_store_inv [OF assms(1)] assms(2)] by simp
  have nl: "result g \<noteq> Lost"
    using inv assms(3) by (simp add: game_inv_def)
  have q: "lookup_game (fst (process_queue gid (h, opn) cells)) gid =
             Some (p, g\<lparr>opened := opened g @ cells\<rparr>)"
    using process_queue_safe [OF assms(2,3,4)] assms(5) by auto
  have "length cells = total_cells g - length (bombs_positions g) - length (opened g)"
    using card_remaining_safe [OF inv nl] assms(4,5) by (simp add: distinct_card [symmetric])
  then have len: "length (opened g @ cells) = total_cells g - length (bombs_positions g)"
    using game_inv_opened_bound [OF inv nl] by simp
  show ?thesis
    using cashout_active [OF q] assms(3) len by simp
qed

theorem clear_board_then_cashout_witness:
  "\<exists>c h'. cashout (fst (process_queue ''g''
       ([\<lparr>game_id = ''g'', created_at = ''t'', size = 2, bombs = Num 1, total_cells = 4,
          client_seed = ''abc'', server_seed = ''b2'', nonce = 1, bet = Num 1,
          bombs_positions = generate_bombs (\<lambda>_ _. ''00'') ''b2'' ''abc'' 1 4 (Num 1),
          opened = [], finished = False, result = NoResult, payout_multiplier = None\<rparr>], [])
       (filter (\<lambda>i. i \<notin> set (generate_bombs (\<lambda>_ _. ''00'') ''b2'' ''abc'' 1 4 (Num 1))) [0..<4])))
       ''g'' = Inr (c, h') \<and>
     payout c = compute_multiplier 4 (Num 1)
                  (4 - length (generate_bombs (\<lambda>_ _. ''00'') ''b2'' ''abc'' 1 4 (Num 1)))"
proof -
  let ?B = "generate_bombs (\<lambda>_ _. ''00'') ''b2'' ''abc'' 1 4 (Num 1)"
  let ?g = "\<lparr>game_id = ''g'', created_at = ''t'', size = 2, bombs = Num 1, total_cells = 4,
          client_seed = ''abc'', server_seed = ''b2'', nonce = 1, bet = Num 1,
          bombs_positions = ?B, opened = [], finished = False, result = NoResult,
          payout_multiplier = None\<rparr>"
  have l: "lookup_game [?g] ''g'' = Some (0, ?g)"
    by (simp add: lookup_game_def)
  have s: "set (filter (\<lambda>i. i \<notin> set ?B) [0..<4]) = {..<total_cells ?g} - set (bombs_positions ?g) - set (opened ?g)"
    by auto
  show ?thesis
    using clear_board_then_cashout [OF reachable_one_game l _ _ s, of "[]"] by simp
qed

end
